theory Spec2Isabelle
  imports Main "HOL-Library.AList"
begin

section \<open>Data model\<close>

text \<open>
  Values decoded by \<open>json.loads\<close>. A decoded object is an association list read with
  \<open>map_of\<close> (Python keeps one value per key). Only integer numbers are modelled.
\<close>

datatype json =
    JNull
  | JBool bool
  | JNum int
  | JStr string
  | JArr "json list"
  | JObj "(string \<times> json) list"

text \<open>
  The exceptions that leave a function of the program. \<open>SystemExit\<close> is \<open>sys.exit(1)\<close>;
  \<open>OSError\<close> stands for the operating system errors other than \<open>FileNotFoundError\<close>
  (\<open>PermissionError\<close> among them). \<open>IllTyped\<close> is not a Python exception: it marks a
  metadata object whose dependency field is not an array of strings, which the field types
  of \<open>PackageInfo\<close> exclude; the model stops there instead of following the dynamically
  typed value.
\<close>

datatype error =
    SystemExit | TypeError | AttributeError | KeyError | IndexError | ValueError
  | OSError | UnicodeDecodeError | IllTyped

text \<open>The dataclass \<open>PackageInfo\<close>. Description and URL hold whatever value the key has.\<close>

record PackageInfo =
  name :: string
  description :: json
  url :: json
  build_dependencies :: "string list"
  runtime_dependencies :: "string list"
  is_cask :: bool

text \<open>
  A Python \<open>dict\<close> keeps its keys in insertion order and assigning to an existing key keeps
  the key's place: an association list changed with \<open>AList.update\<close>.
\<close>

type_synonym catalog = "(string \<times> PackageInfo) list"
type_synonym revindex = "(string \<times> string set) list"
type_synonym calls = "string list list"

text \<open>The fields of \<open>BrewAnalyzer\<close>, and those \<open>OptimizedBrewAnalyzer\<close> adds.\<close>

record BrewAnalyzer =
  packages :: catalog
  reverse_dependencies :: revindex
  installed_packages :: "string set"

record OptimizedBrewAnalyzer = BrewAnalyzer +
  use_api :: bool
  batch_size :: int
  api_cache :: "((json \<times> json) list \<times> (json \<times> json) list) option"

text \<open>
  The outside world: what \<open>subprocess.run(["brew"] + args, check=True)\<close> does for each
  argument list, the function \<open>json.loads\<close> (\<open>None\<close> is \<open>JSONDecodeError\<close>), and what
  \<open>requests.get(url).json()\<close> yields (\<open>None\<close> is a \<open>RequestException\<close>).
  \<open>Raised x\<close> is any exception of \<open>subprocess.run\<close> other than the two that
  \<open>run_brew_command\<close> handles: a file that may not be executed, output that is not text.
\<close>

datatype reply = FileNotFoundError | CalledProcessError | Raised error | Completed string

record env =
  brew :: "string list \<Rightarrow> reply"
  loads :: "string \<Rightarrow> json option"
  fetch :: "string \<Rightarrow> json option"

section \<open>Running the package manager\<close>

text \<open>
  \<open>str.strip()\<close> for text whose white space is ASCII: strings are byte strings here, and
  the other Unicode white space, which \<open>str.strip()\<close> removes as well, is left in place.
\<close>

definition is_space :: "char \<Rightarrow> bool" where
  "is_space c \<longleftrightarrow> c \<in> set [CHR 0x09, CHR 0x0A, CHR 0x0B, CHR 0x0C, CHR 0x0D,
                            CHR 0x1C, CHR 0x1D, CHR 0x1E, CHR 0x1F, CHR 0x20]"

definition strip :: "string \<Rightarrow> string" where
  "strip s = rev (dropWhile is_space (rev (dropWhile is_space s)))"

text \<open>\<open>s.split("\n")\<close>: never the empty list.\<close>

fun split_nl :: "string \<Rightarrow> string list" where
  "split_nl [] = [[]]"
| "split_nl (c # cs) =
     (if c = CHR 0x0A then [] # split_nl cs
      else (case split_nl cs of [] \<Rightarrow> [[c]] | l # ls \<Rightarrow> (c # l) # ls))"

text \<open>
  \<open>run_brew_command\<close>: the stripped standard output, the empty string when the command
  fails, and the end of the process when the executable is missing; any other exception
  is not handled. The second component records the command that was invoked.
\<close>

definition run_brew_command :: "env \<Rightarrow> string list \<Rightarrow> error + (string \<times> calls)" where
  "run_brew_command e args =
     (case brew e args of
        Completed out \<Rightarrow> Inr (strip out, [args])
      | CalledProcessError \<Rightarrow> Inr ([], [args])
      | FileNotFoundError \<Rightarrow> Inl SystemExit
      | Raised x \<Rightarrow> Inl x)"

definition get_installed_packages :: "env \<Rightarrow> error + ((string \<times> bool) list \<times> calls)" where
  "get_installed_packages e =
     (case run_brew_command e [''list'', ''--formula''] of
        Inl x \<Rightarrow> Inl x
      | Inr (packages_output, c1) \<Rightarrow>
          (case run_brew_command e [''list'', ''--cask''] of
             Inl x \<Rightarrow> Inl x
           | Inr (casks_output, c2) \<Rightarrow>
               (let pkgs = (if packages_output \<noteq> [] then split_nl packages_output else []);
                    casks = (if casks_output \<noteq> [] then split_nl casks_output else [])
                in Inr (map (\<lambda>pkg. (pkg, False)) (filter (\<lambda>pkg. pkg \<noteq> []) pkgs) @
                        map (\<lambda>cask. (cask, True)) (filter (\<lambda>cask. cask \<noteq> []) casks),
                        c1 @ c2))))"

section \<open>Reading a metadata object\<close>

text \<open>Truth value of a decoded value (\<open>if not info_data\<close>).\<close>

fun truthy :: "json \<Rightarrow> bool" where
  "truthy JNull = False"
| "truthy (JBool b) = b"
| "truthy (JNum n) = (n \<noteq> 0)"
| "truthy (JStr s) = (s \<noteq> [])"
| "truthy (JArr xs) = (xs \<noteq> [])"
| "truthy (JObj d) = (d \<noteq> [])"

text \<open>\<open>pkg_data.get(key, default)\<close> on a decoded object.\<close>

definition dict_get :: "(string \<times> json) list \<Rightarrow> string \<Rightarrow> json \<Rightarrow> json" where
  "dict_get d k dflt = (case map_of d k of None \<Rightarrow> dflt | Some v \<Rightarrow> v)"

fun strings_of :: "json list \<Rightarrow> string list option" where
  "strings_of [] = Some []"
| "strings_of (JStr s # xs) = (case strings_of xs of None \<Rightarrow> None | Some ss \<Rightarrow> Some (s # ss))"
| "strings_of (_ # xs) = None"

text \<open>\<open>pkg_data.get(key, [])\<close> read at the type \<open>List[str]\<close> of the dependency fields.\<close>

definition get_deps :: "(string \<times> json) list \<Rightarrow> string \<Rightarrow> error + string list" where
  "get_deps d k =
     (case map_of d k of
        None \<Rightarrow> Inr []
      | Some (JArr xs) \<Rightarrow> (case strings_of xs of None \<Rightarrow> Inl IllTyped | Some ss \<Rightarrow> Inr ss)
      | Some _ \<Rightarrow> Inl IllTyped)"

text \<open>
  The record built from a metadata object, as each of the three resolvers builds it:
  a cask never reads the dependency keys, a formula reads both.
\<close>

definition cask_info :: "string \<Rightarrow> (string \<times> json) list \<Rightarrow> PackageInfo" where
  "cask_info package_name d =
     \<lparr>name = package_name,
      description = dict_get d ''desc'' (JStr ''No description available''),
      url = dict_get d ''homepage'' (JStr ''''),
      build_dependencies = [],
      runtime_dependencies = [],
      is_cask = True\<rparr>"

definition formula_info :: "string \<Rightarrow> (string \<times> json) list \<Rightarrow> error + PackageInfo" where
  "formula_info package_name d =
     (case get_deps d ''build_dependencies'' of
        Inl x \<Rightarrow> Inl x
      | Inr build_deps \<Rightarrow>
          (case get_deps d ''dependencies'' of
             Inl x \<Rightarrow> Inl x
           | Inr runtime_deps \<Rightarrow>
               Inr \<lparr>name = package_name,
                    description = dict_get d ''desc'' (JStr ''No description available''),
                    url = dict_get d ''homepage'' (JStr ''''),
                    build_dependencies = build_deps,
                    runtime_dependencies = runtime_deps,
                    is_cask = False\<rparr>))"

text \<open>A value that is not an object has no method \<open>get\<close>.\<close>

fun package_info :: "string \<Rightarrow> bool \<Rightarrow> json \<Rightarrow> error + PackageInfo" where
  "package_info package_name ic (JObj d) =
     (if ic then Inr (cask_info package_name d) else formula_info package_name d)"
| "package_info package_name ic _ = Inl AttributeError"

section \<open>One query per package (brewinfo.py)\<close>

definition info_args :: "string \<Rightarrow> bool \<Rightarrow> string list" where
  "info_args package_name ic =
     [''info'', ''--json''] @ (if ic then [''--cask''] else []) @ [package_name]"

text \<open>\<open>info_data[0]\<close> on a value that is true.\<close>

fun first_item :: "json \<Rightarrow> error + json" where
  "first_item (JArr (x # xs)) = Inr x"
| "first_item (JArr []) = Inl IndexError"
| "first_item (JObj d) = Inl KeyError"
| "first_item (JStr (c # cs)) = Inr (JStr [c])"
| "first_item (JStr []) = Inl IndexError"
| "first_item _ = Inl TypeError"

text \<open>
  \<open>except (json.JSONDecodeError, KeyError, IndexError)\<close>; a decoding error is the
  \<open>None\<close> of \<open>loads\<close>.
\<close>

definition caught :: "error \<Rightarrow> bool" where
  "caught x \<longleftrightarrow> x = KeyError \<or> x = IndexError"

definition parse_brew_info :: "env \<Rightarrow> string \<Rightarrow> bool \<Rightarrow> error + (PackageInfo option \<times> calls)" where
  "parse_brew_info e package_name ic =
     (case run_brew_command e (info_args package_name ic) of
        Inl x \<Rightarrow> Inl x
      | Inr (info_output, c) \<Rightarrow>
          if info_output = [] then Inr (None, c)
          else (case loads e info_output of
                  None \<Rightarrow> Inr (None, c)
                | Some info_data \<Rightarrow>
                    if \<not> truthy info_data then Inr (None, c)
                    else (case first_item info_data of
                            Inl x \<Rightarrow> (if caught x then Inr (None, c) else Inl x)
                          | Inr pkg_data \<Rightarrow>
                              (case package_info package_name ic pkg_data of
                                 Inl x \<Rightarrow> (if caught x then Inr (None, c) else Inl x)
                               | Inr info \<Rightarrow> Inr (Some info, c)))))"

section \<open>The reverse index and the status of a dependency\<close>

definition rev_lookup :: "revindex \<Rightarrow> string \<Rightarrow> string set" where
  "rev_lookup rd dep = (case map_of rd dep of None \<Rightarrow> {} | Some s \<Rightarrow> s)"

text \<open>\<open>self.reverse_dependencies[dep].add(pkg_name)\<close> on a \<open>defaultdict(set)\<close>.\<close>

definition add_reverse :: "string \<Rightarrow> string \<Rightarrow> revindex \<Rightarrow> revindex" where
  "add_reverse pkg_name dep rd = AList.update dep (insert pkg_name (rev_lookup rd dep)) rd"

definition index_package :: "string \<times> PackageInfo \<Rightarrow> revindex \<Rightarrow> revindex" where
  "index_package item rd =
     fold (add_reverse (fst item)) (runtime_dependencies (snd item))
       (fold (add_reverse (fst item)) (build_dependencies (snd item)) rd)"

definition build_reverse_dependencies ::
    "'a BrewAnalyzer_scheme \<Rightarrow> 'a BrewAnalyzer_scheme" where
  "build_reverse_dependencies st =
     st\<lparr>reverse_dependencies := fold index_package (packages st) (reverse_dependencies st)\<rparr>"

text \<open>The two status symbols, as UTF-8 bytes (U+2705 and U+274C).\<close>

definition green_check :: string where
  "green_check = [CHR 0xE2, CHR 0x9C, CHR 0x85]"

definition red_x :: string where
  "red_x = [CHR 0xE2, CHR 0x9D, CHR 0x8C]"

definition check_dependency_status :: "'a BrewAnalyzer_scheme \<Rightarrow> string \<Rightarrow> string" where
  "check_dependency_status st dep_name =
     (if dep_name \<in> installed_packages st then green_check else red_x)"

section \<open>The analysis pass of brewinfo.py\<close>

fun resolve_each :: "env \<Rightarrow> (string \<times> bool) list \<Rightarrow> catalog \<Rightarrow> error + (catalog \<times> calls)" where
  "resolve_each e [] pk = Inr (pk, [])"
| "resolve_each e ((package_name, ic) # rest) pk =
     (case parse_brew_info e package_name ic of
        Inl x \<Rightarrow> Inl x
      | Inr (pkg_info, c) \<Rightarrow>
          (case resolve_each e rest
                  (case pkg_info of None \<Rightarrow> pk | Some info \<Rightarrow> AList.update package_name info pk) of
             Inl x \<Rightarrow> Inl x
           | Inr (pk', c') \<Rightarrow> Inr (pk', c @ c')))"

definition analyze_packages :: "env \<Rightarrow> BrewAnalyzer \<Rightarrow> error + (BrewAnalyzer \<times> calls)" where
  "analyze_packages e st =
     (case get_installed_packages e of
        Inl x \<Rightarrow> Inl x
      | Inr (installed_list, c0) \<Rightarrow>
          if installed_list = [] then Inr (st, c0)
          else (let st1 = st\<lparr>installed_packages := set (map fst installed_list)\<rparr>
                in case resolve_each e installed_list (packages st1) of
                     Inl x \<Rightarrow> Inl x
                   | Inr (pk, c1) \<Rightarrow>
                       Inr (build_reverse_dependencies (st1\<lparr>packages := pk\<rparr>), c0 @ c1)))"

text \<open>The state \<open>__init__\<close> builds.\<close>

definition new_analyzer :: BrewAnalyzer where
  "new_analyzer = \<lparr>packages = [], reverse_dependencies = [], installed_packages = {}\<rparr>"

section \<open>Batched queries (brewinfo_optimized.py)\<close>

text \<open>\<open>pkg[key]\<close> on an element of a decoded array.\<close>

fun subscript :: "json \<Rightarrow> string \<Rightarrow> error + json" where
  "subscript (JObj d) k = (case map_of d k of None \<Rightarrow> Inl KeyError | Some v \<Rightarrow> Inr v)"
| "subscript _ k = Inl TypeError"

fun hashable :: "json \<Rightarrow> bool" where
  "hashable (JArr xs) = False"
| "hashable (JObj d) = False"
| "hashable _ = True"

text \<open>
  What \<open>for pkg in info_data\<close> runs through: the elements of an array, the characters of
  a string, the keys of an object; nothing else can be iterated.
\<close>

fun py_iter :: "json \<Rightarrow> error + json list" where
  "py_iter (JArr xs) = Inr xs"
| "py_iter (JStr s) = Inr (map (\<lambda>c. JStr [c]) s)"
| "py_iter (JObj d) = Inr (map JStr (remdups (map fst d)))"
| "py_iter _ = Inl TypeError"

text \<open>
  The comprehension \<open>{pkg[key]: pkg for pkg in info_data}\<close>. The program looks such a
  dictionary up with strings only and tests whether it is empty (Python also identifies
  the keys \<open>1\<close> and \<open>True\<close>, which changes neither).
\<close>

fun index_items :: "string \<Rightarrow> json list \<Rightarrow> (json \<times> json) list \<Rightarrow> error + (json \<times> json) list" where
  "index_items k [] acc = Inr acc"
| "index_items k (pkg # rest) acc =
     (case subscript pkg k of
        Inl x \<Rightarrow> Inl x
      | Inr v \<Rightarrow> if hashable v then index_items k rest (AList.update v pkg acc) else Inl TypeError)"

definition dict_by :: "string \<Rightarrow> json \<Rightarrow> error + (json \<times> json) list" where
  "dict_by k info_data =
     (case py_iter info_data of Inl x \<Rightarrow> Inl x | Inr items \<Rightarrow> index_items k items [])"

text \<open>The loop \<open>for formula_name in formulas\<close> (and the one over the casks).\<close>

fun collect :: "bool \<Rightarrow> (json \<times> json) list \<Rightarrow> string list \<Rightarrow> error + PackageInfo option list" where
  "collect ic data [] = Inr []"
| "collect ic data (n # ns) =
     (case map_of data (JStr n) of
        None \<Rightarrow> (case collect ic data ns of Inl x \<Rightarrow> Inl x | Inr rs \<Rightarrow> Inr (None # rs))
      | Some pkg_data \<Rightarrow>
          (case package_info n ic pkg_data of
             Inl x \<Rightarrow> Inl x
           | Inr info \<Rightarrow>
               (case collect ic data ns of Inl x \<Rightarrow> Inl x | Inr rs \<Rightarrow> Inr (Some info # rs))))"

definition batch_args :: "bool \<Rightarrow> string list \<Rightarrow> string list" where
  "batch_args ic names = [''info'', ''--json''] @ (if ic then [''--cask''] else []) @ names"

text \<open>
  One of the two blocks of \<open>parse_brew_info_batch\<close>: the formulas (\<open>ic\<close> false, key
  \<open>name\<close>) or the casks (\<open>ic\<close> true, key \<open>token\<close>). The handler
  \<open>except (json.JSONDecodeError, KeyError)\<close> can only be reached from the decoding and the
  comprehension; the loop raises neither.
\<close>

definition query_batch ::
    "env \<Rightarrow> bool \<Rightarrow> string list \<Rightarrow> error + (PackageInfo option list \<times> calls)" where
  "query_batch e ic names =
     (if names = [] then Inr ([], [])
      else case run_brew_command e (batch_args ic names) of
             Inl x \<Rightarrow> Inl x
           | Inr (info_output, c) \<Rightarrow>
               if info_output = [] then Inr (replicate (length names) None, c)
               else (case loads e info_output of
                       None \<Rightarrow> Inr (replicate (length names) None, c)
                     | Some info_data \<Rightarrow>
                         (case dict_by (if ic then ''token'' else ''name'') info_data of
                            Inl x \<Rightarrow> (if x = KeyError
                                      then Inr (replicate (length names) None, c) else Inl x)
                          | Inr data \<Rightarrow>
                              (case collect ic data names of
                                 Inl x \<Rightarrow> Inl x
                               | Inr rs \<Rightarrow> Inr (rs, c)))))"

definition parse_brew_info_batch ::
    "env \<Rightarrow> (string \<times> bool) list \<Rightarrow> error + (PackageInfo option list \<times> calls)" where
  "parse_brew_info_batch e pkgs =
     (if pkgs = [] then Inr ([], [])
      else (let formulas = map fst (filter (\<lambda>pkg. \<not> snd pkg) pkgs);
                casks = map fst (filter (\<lambda>pkg. snd pkg) pkgs)
            in case query_batch e False formulas of
                 Inl x \<Rightarrow> Inl x
               | Inr (rs1, c1) \<Rightarrow>
                   (case query_batch e True casks of
                      Inl x \<Rightarrow> Inl x
                    | Inr (rs2, c2) \<Rightarrow> Inr (rs1 @ rs2, c1 @ c2))))"

section \<open>The bulk manifests (brewinfo_optimized.py)\<close>

definition formula_url :: string where
  "formula_url = ''https://formulae.brew.sh/api/formula.json''"

definition cask_url :: string where
  "cask_url = ''https://formulae.brew.sh/api/cask.json''"

text \<open>
  \<open>fetch_api_data\<close>: a request that fails makes the result two empty dictionaries and
  leaves the cache as it was; an error of the comprehensions is not handled.
\<close>

definition fetch_api_data ::
    "env \<Rightarrow> OptimizedBrewAnalyzer \<Rightarrow>
     error + (((json \<times> json) list \<times> (json \<times> json) list) \<times> OptimizedBrewAnalyzer)" where
  "fetch_api_data e st =
     (case api_cache st of
        Some cached \<Rightarrow> Inr (cached, st)
      | None \<Rightarrow>
          (case fetch e formula_url of
             None \<Rightarrow> Inr (([], []), st)
           | Some formula_json \<Rightarrow>
               (case dict_by ''name'' formula_json of
                  Inl x \<Rightarrow> Inl x
                | Inr formulas \<Rightarrow>
                    (case fetch e cask_url of
                       None \<Rightarrow> Inr (([], []), st)
                     | Some cask_json \<Rightarrow>
                         (case dict_by ''token'' cask_json of
                            Inl x \<Rightarrow> Inl x
                          | Inr casks \<Rightarrow>
                              Inr ((formulas, casks),
                                   st\<lparr>api_cache := Some (formulas, casks)\<rparr>))))))"

definition parse_api_data ::
    "string \<Rightarrow> bool \<Rightarrow> (json \<times> json) list \<Rightarrow> (json \<times> json) list \<Rightarrow>
     error + PackageInfo option" where
  "parse_api_data package_name ic formulas casks =
     (case map_of (if ic then casks else formulas) (JStr package_name) of
        None \<Rightarrow> Inr None
      | Some pkg_data \<Rightarrow>
          (case package_info package_name ic pkg_data of
             Inl x \<Rightarrow> (if caught x then Inr None else Inl x)
           | Inr info \<Rightarrow> Inr (Some info)))"

section \<open>The analysis pass of brewinfo\_optimized.py\<close>

fun resolve_api ::
    "(string \<times> bool) list \<Rightarrow> (json \<times> json) list \<Rightarrow> (json \<times> json) list \<Rightarrow> catalog \<Rightarrow>
     error + catalog" where
  "resolve_api [] formulas casks pk = Inr pk"
| "resolve_api ((package_name, ic) # rest) formulas casks pk =
     (case parse_api_data package_name ic formulas casks of
        Inl x \<Rightarrow> Inl x
      | Inr pkg_info \<Rightarrow>
          resolve_api rest formulas casks
            (case pkg_info of None \<Rightarrow> pk | Some info \<Rightarrow> AList.update package_name info pk))"

definition api_phase ::
    "env \<Rightarrow> (string \<times> bool) list \<Rightarrow> OptimizedBrewAnalyzer \<Rightarrow> error + OptimizedBrewAnalyzer" where
  "api_phase e installed_list st =
     (case fetch_api_data e st of
        Inl x \<Rightarrow> Inl x
      | Inr ((formulas, casks), st') \<Rightarrow>
          if formulas \<noteq> [] \<or> casks \<noteq> []
          then (case resolve_api installed_list formulas casks (packages st') of
                  Inl x \<Rightarrow> Inl x
                | Inr pk \<Rightarrow> Inr (st'\<lparr>packages := pk\<rparr>))
          else Inr (st'\<lparr>use_api := False\<rparr>))"

text \<open>
  The slices \<open>installed_list[i : i + batch_size]\<close> for \<open>i\<close> in
  \<open>range(0, len(installed_list), batch_size)\<close>, for a positive step.
\<close>

function batches :: "nat \<Rightarrow> 'a list \<Rightarrow> 'a list list" where
  "batches B xs = (if B = 0 \<or> xs = [] then [] else take B xs # batches B (drop B xs))"
  by pat_completeness auto
termination
  by (relation "measure (\<lambda>(B, xs). length xs)") auto

declare batches.simps [simp del]

text \<open>
  \<open>for (package_name, _), pkg_info in zip(batch, batch_results)\<close>: one step stores a
  record under the name at the same position of the batch.
\<close>

definition store :: "(string \<times> bool) \<times> PackageInfo option \<Rightarrow> catalog \<Rightarrow> catalog" where
  "store item pk =
     (case snd item of None \<Rightarrow> pk | Some info \<Rightarrow> AList.update (fst (fst item)) info pk)"

fun run_batches ::
    "env \<Rightarrow> (string \<times> bool) list list \<Rightarrow> catalog \<Rightarrow> error + (catalog \<times> calls)" where
  "run_batches e [] pk = Inr (pk, [])"
| "run_batches e (batch # rest) pk =
     (case parse_brew_info_batch e batch of
        Inl x \<Rightarrow> Inl x
      | Inr (batch_results, c) \<Rightarrow>
          (case run_batches e rest (fold store (zip batch batch_results) pk) of
             Inl x \<Rightarrow> Inl x
           | Inr (pk', c') \<Rightarrow> Inr (pk', c @ c')))"

text \<open>
  The batch loop. \<open>range\<close> refuses a step of zero and is empty for a negative one
  (the list is not empty here).
\<close>

definition batch_phase ::
    "env \<Rightarrow> (string \<times> bool) list \<Rightarrow> OptimizedBrewAnalyzer \<Rightarrow>
     error + (OptimizedBrewAnalyzer \<times> calls)" where
  "batch_phase e installed_list st =
     (if batch_size st = 0 then Inl ValueError
      else if batch_size st < 0 then Inr (st, [])
      else (case run_batches e (batches (nat (batch_size st)) installed_list) (packages st) of
              Inl x \<Rightarrow> Inl x
            | Inr (pk, c) \<Rightarrow> Inr (st\<lparr>packages := pk\<rparr>, c)))"

definition optimized_analyze_packages ::
    "env \<Rightarrow> OptimizedBrewAnalyzer \<Rightarrow> error + (OptimizedBrewAnalyzer \<times> calls)" where
  "optimized_analyze_packages e st =
     (case get_installed_packages e of
        Inl x \<Rightarrow> Inl x
      | Inr (installed_list, c0) \<Rightarrow>
          if installed_list = [] then Inr (st, c0)
          else (let st1 = st\<lparr>installed_packages := set (map fst installed_list)\<rparr>
                in case (if use_api st1 then api_phase e installed_list st1 else Inr st1) of
                     Inl x \<Rightarrow> Inl x
                   | Inr st2 \<Rightarrow>
                       (case (if \<not> use_api st2 then batch_phase e installed_list st2
                              else Inr (st2, [])) of
                          Inl x \<Rightarrow> Inl x
                        | Inr (st3, c1) \<Rightarrow> Inr (build_reverse_dependencies st3, c0 @ c1))))"

text \<open>The state \<open>__init__(use_api, batch_size)\<close> builds.\<close>

definition new_optimized :: "bool \<Rightarrow> int \<Rightarrow> OptimizedBrewAnalyzer" where
  "new_optimized api bsize =
     \<lparr>packages = [], reverse_dependencies = [], installed_packages = {},
      use_api = api, batch_size = bsize, api_cache = None\<rparr>"

section \<open>Notions used to state the properties\<close>

text \<open>
  A catalog as \<open>analyze_packages\<close> builds it: a dictionary (no key twice) that stores every
  record under the record's own name.
\<close>

definition well_keyed :: "catalog \<Rightarrow> bool" where
  "well_keyed pk \<longleftrightarrow> distinct (map fst pk) \<and> (\<forall>item \<in> set pk. name (snd item) = fst item)"

text \<open>The packages of a catalog that list \<open>dep\<close> as a build or runtime dependency.\<close>

definition dependents :: "catalog \<Rightarrow> string \<Rightarrow> string set" where
  "dependents pk dep =
     set (map fst (filter (\<lambda>item. dep \<in> set (build_dependencies (snd item)) \<union>
                                       set (runtime_dependencies (snd item))) pk))"

text \<open>The example of the specification: A needs B at run time, C is a cask.\<close>

definition example_catalog :: catalog where
  "example_catalog =
     [(''A'', \<lparr>name = ''A'', description = JStr ''a'', url = JStr '''',
              build_dependencies = [], runtime_dependencies = [''B''], is_cask = False\<rparr>),
      (''B'', \<lparr>name = ''B'', description = JStr ''b'', url = JStr '''',
              build_dependencies = [], runtime_dependencies = [], is_cask = False\<rparr>),
      (''C'', \<lparr>name = ''C'', description = JStr ''c'', url = JStr '''',
              build_dependencies = [], runtime_dependencies = [], is_cask = True\<rparr>)]"


text \<open>The list \<open>get_installed_packages\<close> returns: the formulas, then the casks.\<close>

definition enumeration :: "string list \<Rightarrow> string list \<Rightarrow> (string \<times> bool) list" where
  "enumeration fs cs = map (\<lambda>pkg. (pkg, False)) fs @ map (\<lambda>cask. (cask, True)) cs"

text \<open>
  The identity each position of the result list of \<open>parse_brew_info_batch\<close> is about:
  the formulas of the request in request order, then its casks in request order.
\<close>

definition result_slots :: "(string \<times> bool) list \<Rightarrow> (string \<times> bool) list" where
  "result_slots pkgs = filter (\<lambda>pkg. \<not> snd pkg) pkgs @ filter (\<lambda>pkg. snd pkg) pkgs"

text \<open>Every formula of the list stands before every cask.\<close>

fun formulas_first :: "(string \<times> bool) list \<Rightarrow> bool" where
  "formulas_first [] = True"
| "formulas_first (p # ps) = (if snd p then list_all snd ps else formulas_first ps)"

text \<open>A result is about an identity: no record, or a record of that name and kind.\<close>

definition answers :: "string \<times> bool \<Rightarrow> PackageInfo option \<Rightarrow> bool" where
  "answers p r = (case r of None \<Rightarrow> True | Some info \<Rightarrow> name info = fst p \<and> is_cask info = snd p)"

text \<open>
  A small world: formulas A (needing B) and B, cask C whose metadata lists a dependency;
  the outputs of the package manager are short tags that \<open>loads\<close> decodes.
\<close>

definition demo_env :: env where
  "demo_env =
     \<lparr>brew = (\<lambda>args.
         if args = [''list'', ''--formula''] then Completed (''A'' @ [CHR 0x0A] @ ''B'' @ [CHR 0x0A])
         else if args = [''list'', ''--cask''] then Completed ''C''
         else if args = [''info'', ''--json'', ''A''] then Completed ''a''
         else if args = [''info'', ''--json'', ''B''] then Completed ''b''
         else if args = [''info'', ''--json'', ''--cask'', ''C''] then Completed ''c''
         else if args = [''info'', ''--json'', ''A'', ''B''] then Completed ''ab''
         else CalledProcessError),
      loads = (\<lambda>s.
         if s = ''a'' then Some (JArr [JObj [(''name'', JStr ''A''), (''desc'', JStr ''first''),
                                            (''dependencies'', JArr [JStr ''B''])]])
         else if s = ''b'' then Some (JArr [JObj [(''name'', JStr ''B'')]])
         else if s = ''c'' then Some (JArr [JObj [(''token'', JStr ''C''),
                                                 (''dependencies'', JArr [JStr ''Z''])]])
         else if s = ''ab'' then Some (JArr [JObj [(''name'', JStr ''A''), (''desc'', JStr ''first''),
                                                  (''dependencies'', JArr [JStr ''B''])],
                                            JObj [(''name'', JStr ''B'')]])
         else None),
      fetch = (\<lambda>u. None)\<rparr>"

text \<open>The quotient rounded up.\<close>

definition ceil_div :: "nat \<Rightarrow> nat \<Rightarrow> nat" where
  "ceil_div a b = (a + b - 1) div b"

text \<open>
  The queries one call of \<open>parse_brew_info_batch\<close> issues, as kind and names: one for the
  formulas of the batch if it has any, then one for its casks if it has any.
\<close>

definition batch_queries :: "(string \<times> bool) list \<Rightarrow> (bool \<times> string list) list" where
  "batch_queries pkgs =
     (let formulas = map fst (filter (\<lambda>pkg. \<not> snd pkg) pkgs);
          casks = map fst (filter (\<lambda>pkg. snd pkg) pkgs)
      in (if formulas = [] then [] else [(False, formulas)]) @
         (if casks = [] then [] else [(True, casks)]))"

text \<open>The queries of the whole batch loop for a batch size and an installed list.\<close>

definition planned_queries :: "nat \<Rightarrow> (string \<times> bool) list \<Rightarrow> (bool \<times> string list) list" where
  "planned_queries B installed_list = concat (map batch_queries (batches B installed_list))"

text \<open>One assignment \<open>self.packages[package_name] = pkg_info\<close>.\<close>

definition put :: "string \<times> PackageInfo \<Rightarrow> catalog \<Rightarrow> catalog" where
  "put u pk = AList.update (fst u) (snd u) pk"

text \<open>
  The assignments the loop of \<open>analyze_packages\<close> makes, in order: one for every installed
  identity whose query yields a record.
\<close>

fun single_updates :: "env \<Rightarrow> (string \<times> bool) list \<Rightarrow> (string \<times> PackageInfo) list" where
  "single_updates e [] = []"
| "single_updates e ((package_name, ic) # rest) =
     (case parse_brew_info e package_name ic of
        Inr (Some info, c) \<Rightarrow> (package_name, info) # single_updates e rest
      | _ \<Rightarrow> single_updates e rest)"

text \<open>
  A world in which the name x is installed both as a formula and as a cask, and both
  queries answer.
\<close>

definition twin_env :: env where
  "twin_env =
     \<lparr>brew = (\<lambda>args.
         if args = [''list'', ''--formula''] then Completed ''x''
         else if args = [''list'', ''--cask''] then Completed ''x''
         else if args = [''info'', ''--json'', ''x''] then Completed ''f''
         else if args = [''info'', ''--json'', ''--cask'', ''x''] then Completed ''k''
         else CalledProcessError),
      loads = (\<lambda>s.
         if s = ''f'' then Some (JArr [JObj [(''name'', JStr ''x''), (''desc'', JStr ''the formula'')]])
         else if s = ''k'' then Some (JArr [JObj [(''token'', JStr ''x''), (''desc'', JStr ''the cask'')]])
         else None),
      fetch = (\<lambda>u. None)\<rparr>"

text \<open>
  The remote source is unavailable: a request of \<open>fetch_api_data\<close> raises
  \<open>RequestException\<close>, the first one, or the second one after the first manifest was read.
\<close>

definition api_unavailable :: "env \<Rightarrow> bool" where
  "api_unavailable e =
     (case fetch e formula_url of
        None \<Rightarrow> True
      | Some formula_json \<Rightarrow>
          (case dict_by ''name'' formula_json of
             Inl x \<Rightarrow> False
           | Inr formulas \<Rightarrow> fetch e cask_url = None))"




text \<open>
  Two worlds answer a command alike: the package manager gives the same reply, and when
  it completes, its stripped output decodes to the same value.
\<close>

definition same_reply :: "env \<Rightarrow> env \<Rightarrow> string list \<Rightarrow> bool" where
  "same_reply e1 e2 args =
     (brew e2 args = brew e1 args \<and>
      (case brew e1 args of
         Completed out \<Rightarrow> loads e2 (strip out) = loads e1 (strip out)
       | _ \<Rightarrow> True))"

text \<open>The two worlds answer every command of a log alike.\<close>

definition same_responses :: "env \<Rightarrow> env \<Rightarrow> calls \<Rightarrow> bool" where
  "same_responses e1 e2 c = list_all (same_reply e1 e2) c"

text \<open>The two requests of \<open>fetch_api_data\<close> yield the same in both worlds.\<close>

definition same_manifests :: "env \<Rightarrow> env \<Rightarrow> bool" where
  "same_manifests e1 e2 =
     (fetch e2 formula_url = fetch e1 formula_url \<and> fetch e2 cask_url = fetch e1 cask_url)"

text \<open>
  The small world at a later time: the package manager now knows a package Z that is not
  installed, and the remote source answers one more address.
\<close>

definition later_env :: env where
  "later_env =
     \<lparr>brew = (\<lambda>args. if args = [''info'', ''--json'', ''Z''] then Completed ''b''
                      else brew demo_env args),
      loads = loads demo_env,
      fetch = (\<lambda>u. if u = formula_url \<or> u = cask_url then fetch demo_env u else Some JNull)\<rparr>"












text \<open>
  The pairs \<open>zip(batch, batch_results)\<close> the batch loop runs through, batch after batch.
\<close>

definition batch_items ::
    "env \<Rightarrow> (string \<times> bool) list list \<Rightarrow> ((string \<times> bool) \<times> PackageInfo option) list" where
  "batch_items e bs =
     concat (map (\<lambda>b. case parse_brew_info_batch e b of
                          Inl x \<Rightarrow> []
                        | Inr (rs, c) \<Rightarrow> zip b rs) bs)"

text \<open>The identities of the loop over the manifests, each with what \<open>parse_api_data\<close> returns.\<close>

definition api_items ::
    "(string \<times> bool) list \<Rightarrow> (json \<times> json) list \<Rightarrow> (json \<times> json) list \<Rightarrow>
     ((string \<times> bool) \<times> PackageInfo option) list" where
  "api_items il formulas casks =
     map (\<lambda>p. (p, case parse_api_data (fst p) (snd p) formulas casks of
                      Inl x \<Rightarrow> None
                    | Inr r \<Rightarrow> r)) il"

text \<open>The world of the twins with a remote source that knows both.\<close>

definition twin_api_env :: env where
  "twin_api_env =
     \<lparr>brew = brew twin_env,
      loads = loads twin_env,
      fetch = (\<lambda>u.
         if u = formula_url
           then Some (JArr [JObj [(''name'', JStr ''x''), (''desc'', JStr ''the formula'')]])
         else if u = cask_url
           then Some (JArr [JObj [(''token'', JStr ''x''), (''desc'', JStr ''the cask'')]])
         else None)\<rparr>"





section \<open>The reverse index is the transpose of the dependency relation\<close>

lemma rev_lookup_Nil: "rev_lookup [] D = {}"
  by (simp add: rev_lookup_def)

lemma rev_lookup_add_reverse:
  "rev_lookup (add_reverse k d rd) D = (if D = d then insert k (rev_lookup rd D) else rev_lookup rd D)"
  by (simp add: rev_lookup_def add_reverse_def update_conv')

lemma rev_lookup_fold_add:
  "rev_lookup (fold (add_reverse k) ds rd) D =
     (if D \<in> set ds then insert k (rev_lookup rd D) else rev_lookup rd D)"
  by (induction ds arbitrary: rd) (auto simp: rev_lookup_add_reverse)

lemma rev_lookup_index_package:
  "rev_lookup (index_package item rd) D =
     (if D \<in> set (build_dependencies (snd item)) \<union> set (runtime_dependencies (snd item))
      then insert (fst item) (rev_lookup rd D) else rev_lookup rd D)"
  by (auto simp: index_package_def rev_lookup_fold_add)

lemma rev_lookup_fold_index:
  "rev_lookup (fold index_package pk rd) D = rev_lookup rd D \<union> dependents pk D"
proof (induction pk arbitrary: rd)
  case Nil
  show ?case by (simp add: dependents_def)
next
  case (Cons item pk)
  have "dependents (item # pk) D =
      (if D \<in> set (build_dependencies (snd item)) \<union> set (runtime_dependencies (snd item))
       then {fst item} else {}) \<union> dependents pk D"
    by (auto simp: dependents_def)
  then show ?case
    by (auto simp: Cons.IH rev_lookup_index_package)
qed

lemma keys_add_reverse: "fst ` set (add_reverse k d rd) = insert d (fst ` set rd)"
  by (simp add: add_reverse_def dom_update)

lemma keys_fold_add: "fst ` set (fold (add_reverse k) ds rd) = set ds \<union> fst ` set rd"
  by (induction ds arbitrary: rd) (auto simp: keys_add_reverse)

lemma keys_index_package:
  "fst ` set (index_package item rd) =
     set (build_dependencies (snd item)) \<union> set (runtime_dependencies (snd item)) \<union> fst ` set rd"
  by (auto simp: index_package_def keys_fold_add)

lemma dependents_nonempty:
  "dependents pk D \<noteq> {} \<longleftrightarrow>
     (\<exists>item \<in> set pk. D \<in> set (build_dependencies (snd item)) \<union>
                               set (runtime_dependencies (snd item)))"
  by (fastforce simp: dependents_def filter_empty_conv)

lemma keys_fold_index:
  "fst ` set (fold index_package pk rd) = fst ` set rd \<union> {D. dependents pk D \<noteq> {}}"
proof (induction pk arbitrary: rd)
  case Nil
  show ?case by (simp add: dependents_def)
next
  case (Cons item pk)
  have "{D. dependents (item # pk) D \<noteq> {}} =
      set (build_dependencies (snd item)) \<union> set (runtime_dependencies (snd item)) \<union>
      {D. dependents pk D \<noteq> {}}"
    unfolding dependents_nonempty by auto
  then show ?case
    unfolding fold_simps Cons.IH keys_index_package by blast
qed

lemma well_keyed_member:
  assumes "well_keyed pk" "item \<in> set pk" "item' \<in> set pk" "fst item' = name (snd item)"
  shows "item' = item"
proof -
  have "fst item' = fst item" using assms by (simp add: well_keyed_def)
  moreover have "distinct (map fst pk)" using assms by (simp add: well_keyed_def)
  ultimately show ?thesis using assms(2,3)
    by (metis eq_key_imp_eq_value prod.collapse)
qed

text \<open>
  Claim C1. On a catalog keyed by package name, and starting from the empty index of a new
  analyzer, \<open>build_reverse_dependencies\<close> yields the transpose of the dependency relation:
  for every record P of the catalog and every name D, D is a build or runtime dependency
  of P exactly when the name of P is in the index entry of D; the entry of D holds
  nothing but the packages depending on D, and the index has an entry for D only when
  some package depends on D.
\<close>

theorem reverse_index_is_transpose:
  assumes "well_keyed (packages st)" and "reverse_dependencies st = []"
  shows "(\<forall>item \<in> set (packages st). \<forall>D.
            D \<in> set (build_dependencies (snd item)) \<union> set (runtime_dependencies (snd item))
            \<longleftrightarrow> name (snd item) \<in> rev_lookup (reverse_dependencies (build_reverse_dependencies st)) D)
       \<and> (\<forall>D. rev_lookup (reverse_dependencies (build_reverse_dependencies st)) D
                = dependents (packages st) D)
       \<and> fst ` set (reverse_dependencies (build_reverse_dependencies st))
           = {D. dependents (packages st) D \<noteq> {}}"
proof -
  let ?idx = "reverse_dependencies (build_reverse_dependencies st)"
  have idx: "?idx = fold index_package (packages st) []"
    using assms(2) by (simp add: build_reverse_dependencies_def)
  have look: "rev_lookup ?idx D = dependents (packages st) D" for D
    by (simp add: idx rev_lookup_fold_index rev_lookup_Nil)
  have keys: "fst ` set ?idx = {D. dependents (packages st) D \<noteq> {}}"
    by (simp add: idx keys_fold_index)
  have each: "D \<in> set (build_dependencies (snd item)) \<union> set (runtime_dependencies (snd item))
      \<longleftrightarrow> name (snd item) \<in> rev_lookup ?idx D" if "item \<in> set (packages st)" for item D
  proof
    assume "D \<in> set (build_dependencies (snd item)) \<union> set (runtime_dependencies (snd item))"
    then have "fst item \<in> dependents (packages st) D"
      using that by (auto simp: dependents_def)
    moreover have "name (snd item) = fst item"
      using assms(1) that by (simp add: well_keyed_def)
    ultimately show "name (snd item) \<in> rev_lookup ?idx D" by (simp add: look)
  next
    assume "name (snd item) \<in> rev_lookup ?idx D"
    then have "name (snd item) \<in> dependents (packages st) D" by (simp add: look)
    then obtain item' where i': "item' \<in> set (packages st)" "fst item' = name (snd item)"
      "D \<in> set (build_dependencies (snd item')) \<union> set (runtime_dependencies (snd item'))"
      unfolding dependents_def by auto
    have "item' = item" using well_keyed_member[OF assms(1) that i'(1,2)] .
    then show "D \<in> set (build_dependencies (snd item)) \<union> set (runtime_dependencies (snd item))"
      using i'(3) by simp
  qed
  show ?thesis using each look keys by blast
qed

theorem reverse_index_is_transpose_witness:
  "well_keyed (packages (new_analyzer\<lparr>packages := example_catalog\<rparr>))
   \<and> reverse_dependencies (new_analyzer\<lparr>packages := example_catalog\<rparr>) = []
   \<and> rev_lookup (reverse_dependencies
        (build_reverse_dependencies (new_analyzer\<lparr>packages := example_catalog\<rparr>))) ''B''
       = dependents example_catalog ''B''
   \<and> ''A'' \<in> dependents example_catalog ''B''
   \<and> fst ` set (reverse_dependencies
        (build_reverse_dependencies (new_analyzer\<lparr>packages := example_catalog\<rparr>))) = {''B''}"
proof -
  let ?st = "new_analyzer\<lparr>packages := example_catalog\<rparr>"
  have h1: "well_keyed (packages ?st)"
    by (simp add: well_keyed_def new_analyzer_def example_catalog_def)
  have h2: "reverse_dependencies ?st = []"
    by (simp add: new_analyzer_def)
  have d: "''A'' \<in> dependents example_catalog ''B''"
    by (simp add: dependents_def example_catalog_def)
  have k: "{D. dependents example_catalog D \<noteq> {}} = {''B''}"
    unfolding dependents_nonempty by (auto simp: example_catalog_def)
  have p: "packages ?st = example_catalog" by (simp add: new_analyzer_def)
  show ?thesis
    using reverse_index_is_transpose[OF h1 h2] h1 h2 d k unfolding p by simp
qed

text \<open>
  Claim C7. The status of a dependency D is the green check exactly when D is in the
  installed set and the red cross otherwise, the two symbols differ, and the result does
  not change with the catalog or the reverse index: a dependency that is installed is
  present even when no record was resolved for it.
\<close>

theorem dependency_status_from_installed_set:
  "check_dependency_status st D = (if D \<in> installed_packages st then green_check else red_x)
   \<and> green_check \<noteq> red_x
   \<and> check_dependency_status (st\<lparr>packages := pk, reverse_dependencies := rd\<rparr>) D
       = check_dependency_status st D"
  by (simp add: check_dependency_status_def green_check_def red_x_def)

section \<open>Records of casks and the order of batch results\<close>

lemma package_info_cask:
  assumes "package_info n True j = Inr info"
  shows "name info = n \<and> is_cask info \<and> build_dependencies info = [] \<and>
         runtime_dependencies info = []"
  using assms by (cases j) (auto simp: cask_info_def)

lemma package_info_name:
  assumes "package_info n ic j = Inr info"
  shows "name info = n \<and> is_cask info = ic"
  using assms
  by (cases j) (auto simp: cask_info_def formula_info_def split: sum.splits if_splits)

lemma answers_simps:
  "answers p None" "answers p (Some info) \<longleftrightarrow> name info = fst p \<and> is_cask info = snd p"
  by (simp_all add: answers_def)

lemma collect_answers:
  "collect ic data ns = Inr rs \<Longrightarrow> list_all2 answers (map (\<lambda>n. (n, ic)) ns) rs"
proof (induction ns arbitrary: rs)
  case Nil
  then show ?case by simp
next
  case (Cons n ns)
  then show ?case
    by (auto simp: answers_simps split: option.splits sum.splits dest: package_info_name)
qed

lemma collect_cask:
  "collect True data ns = Inr rs \<Longrightarrow> Some info \<in> set rs \<Longrightarrow>
     build_dependencies info = [] \<and> runtime_dependencies info = []"
proof (induction ns arbitrary: rs)
  case Nil
  then show ?case by simp
next
  case (Cons n ns)
  then show ?case
    by (auto split: option.splits sum.splits dest: package_info_cask)
qed

lemma answers_replicate: "list_all2 answers ps (replicate (length ps) None)"
  by (simp add: list_all2_conv_all_nth answers_simps)

lemma query_batch_answers:
  assumes "query_batch e ic names = Inr (rs, c)"
  shows "list_all2 answers (map (\<lambda>n. (n, ic)) names) rs"
proof (cases "names = []")
  case True
  then show ?thesis using assms by (simp add: query_batch_def)
next
  case False
  have rep: "list_all2 answers (map (\<lambda>n. (n, ic)) names) (replicate (length names) None)"
    using answers_replicate[of "map (\<lambda>n. (n, ic)) names"] by simp
  show ?thesis
    using assms False rep
    by (auto simp: query_batch_def split: sum.splits if_splits option.splits
             dest: collect_answers)
qed

lemma query_batch_cask:
  assumes "query_batch e True names = Inr (rs, c)" and "Some info \<in> set rs"
  shows "build_dependencies info = [] \<and> runtime_dependencies info = []"
  using assms
  by (auto simp: query_batch_def split: sum.splits if_splits option.splits
           dest: collect_cask)

lemma map_fst_filter_kind:
  "map ((\<lambda>n. (n, False)) \<circ> fst) (filter (\<lambda>pkg. \<not> snd pkg) pkgs) = filter (\<lambda>pkg. \<not> snd pkg) pkgs"
  "map ((\<lambda>n. (n, True)) \<circ> fst) (filter (\<lambda>pkg. snd pkg) pkgs) = filter (\<lambda>pkg. snd pkg) pkgs"
  by (induction pkgs) auto

lemma parse_brew_info_batch_split:
  assumes "parse_brew_info_batch e pkgs = Inr (rs, c)"
  shows "\<exists>rs1 c1 rs2 c2.
           query_batch e False (map fst (filter (\<lambda>pkg. \<not> snd pkg) pkgs)) = Inr (rs1, c1) \<and>
           query_batch e True (map fst (filter (\<lambda>pkg. snd pkg) pkgs)) = Inr (rs2, c2) \<and>
           rs = rs1 @ rs2 \<and> c = c1 @ c2"
proof (cases "pkgs = []")
  case True
  then show ?thesis using assms by (simp add: parse_brew_info_batch_def query_batch_def)
next
  case False
  then show ?thesis using assms
    by (auto simp: parse_brew_info_batch_def Let_def split: sum.splits)
qed

lemma parse_brew_info_batch_answers:
  assumes "parse_brew_info_batch e pkgs = Inr (rs, c)"
  shows "list_all2 answers (result_slots pkgs) rs"
proof -
  obtain rs1 c1 rs2 c2 where
    q1: "query_batch e False (map fst (filter (\<lambda>pkg. \<not> snd pkg) pkgs)) = Inr (rs1, c1)" and
    q2: "query_batch e True (map fst (filter (\<lambda>pkg. snd pkg) pkgs)) = Inr (rs2, c2)" and
    rs: "rs = rs1 @ rs2"
    using parse_brew_info_batch_split[OF assms] by blast
  have "list_all2 answers (filter (\<lambda>pkg. \<not> snd pkg) pkgs) rs1"
    using query_batch_answers[OF q1] by (simp add: map_fst_filter_kind)
  moreover have "list_all2 answers (filter (\<lambda>pkg. snd pkg) pkgs) rs2"
    using query_batch_answers[OF q2] by (simp add: map_fst_filter_kind)
  ultimately show ?thesis
    unfolding result_slots_def rs by (rule list_all2_appendI)
qed

lemma length_result_slots: "length (result_slots pkgs) = length pkgs"
  unfolding result_slots_def length_append
  using sum_length_filter_compl[of "\<lambda>pkg. snd pkg" pkgs] by simp

lemma filter_all_casks: "list_all snd ps \<Longrightarrow> filter (\<lambda>pkg. \<not> snd pkg) ps = [] \<and> filter (\<lambda>pkg. snd pkg) ps = ps"
  by (induction ps) auto

lemma result_slots_Cons_formula:
  "\<not> snd p \<Longrightarrow> result_slots (p # ps) = p # result_slots ps"
  by (simp add: result_slots_def)

lemma result_slots_fixed_iff: "result_slots pkgs = pkgs \<longleftrightarrow> formulas_first pkgs"
proof (induction pkgs)
  case Nil
  show ?case by (simp add: result_slots_def)
next
  case (Cons p ps)
  show ?case
  proof (cases "snd p")
    case False
    then show ?thesis using Cons.IH by (simp add: result_slots_Cons_formula)
  next
    case True
    show ?thesis
    proof
      assume eq: "result_slots (p # ps) = p # ps"
      have "filter (\<lambda>pkg. \<not> snd pkg) ps = []"
      proof (rule ccontr)
        assume "filter (\<lambda>pkg. \<not> snd pkg) ps \<noteq> []"
        then obtain q qs where q: "filter (\<lambda>pkg. \<not> snd pkg) ps = q # qs"
          by (cases "filter (\<lambda>pkg. \<not> snd pkg) ps") auto
        then have "q \<in> set (filter (\<lambda>pkg. \<not> snd pkg) ps)" by simp
        then have "\<not> snd q" by simp
        moreover have "q = p" using eq True q by (simp add: result_slots_def)
        ultimately show False using True by simp
      qed
      then have "list_all snd ps"
        by (simp add: filter_empty_conv list_all_iff)
      then show "formulas_first (p # ps)" using True by simp
    next
      assume "formulas_first (p # ps)"
      then have "list_all snd ps" using True by simp
      then show "result_slots (p # ps) = p # ps"
        using True filter_all_casks[of ps] by (simp add: result_slots_def)
    qed
  qed
qed

lemma formulas_first_casks: "list_all snd ps \<Longrightarrow> formulas_first ps"
  by (cases ps) auto

lemma formulas_first_enumeration: "formulas_first (enumeration fs cs)"
proof (induction fs)
  case Nil
  have "list_all snd (map (\<lambda>cask. (cask, True)) cs)" by (simp add: list_all_iff)
  then show ?case unfolding enumeration_def by (simp add: formulas_first_casks)
next
  case (Cons f fs)
  then show ?case by (simp add: enumeration_def)
qed

lemma list_all_take_drop: "list_all P xs \<Longrightarrow> list_all P (take n xs) \<and> list_all P (drop n xs)"
  by (auto simp: list_all_iff dest: in_set_takeD in_set_dropD)

lemma formulas_first_take: "formulas_first ps \<Longrightarrow> formulas_first (take n ps)"
proof (induction ps arbitrary: n)
  case Nil
  then show ?case by simp
next
  case (Cons p ps)
  then show ?case
    by (cases n) (auto simp: list_all_take_drop)
qed

lemma formulas_first_drop: "formulas_first ps \<Longrightarrow> formulas_first (drop n ps)"
proof (induction ps arbitrary: n)
  case Nil
  then show ?case by simp
next
  case (Cons p ps)
  then show ?case
    by (cases n) (auto simp: list_all_take_drop formulas_first_casks split: if_splits)
qed

lemma formulas_first_batches:
  "formulas_first ps \<Longrightarrow> b \<in> set (batches B ps) \<Longrightarrow> formulas_first b"
proof (induction B ps rule: batches.induct)
  case (1 B xs)
  show ?case
  proof (cases "B = 0 \<or> xs = []")
    case True
    then have "batches B xs = []" by (subst batches.simps) simp
    then show ?thesis using "1.prems" by simp
  next
    case False
    then have "batches B xs = take B xs # batches B (drop B xs)"
      by (subst batches.simps) simp
    then have "b = take B xs \<or> b \<in> set (batches B (drop B xs))"
      using "1.prems"(2) by auto
    then show ?thesis
      using "1.IH"[OF False formulas_first_drop[OF "1.prems"(1)]] formulas_first_take[OF "1.prems"(1)]
      by blast
  qed
qed



lemma parse_brew_info_Some:
  "parse_brew_info e n ic = Inr (Some info, c) \<Longrightarrow> \<exists>j. package_info n ic j = Inr info"
  by (auto simp: parse_brew_info_def split: sum.splits if_splits option.splits prod.splits)

lemma parse_api_data_Some:
  "parse_api_data n ic formulas casks = Inr (Some info) \<Longrightarrow> \<exists>j. package_info n ic j = Inr info"
  by (auto simp: parse_api_data_def split: sum.splits if_splits option.splits)

text \<open>
  Claim C9. A record resolved for a cask has no build and no runtime dependency, whatever
  the metadata object holds: for the single query (\<open>parse_brew_info\<close>), for the bulk
  manifests (\<open>parse_api_data\<close>) and for the batch query (\<open>parse_brew_info_batch\<close>).
\<close>

theorem cask_records_have_no_dependencies:
  "(parse_brew_info e n True = Inr (Some info, c) \<longrightarrow>
      build_dependencies info = [] \<and> runtime_dependencies info = [])
   \<and> (parse_api_data n True formulas casks = Inr (Some info) \<longrightarrow>
      build_dependencies info = [] \<and> runtime_dependencies info = [])
   \<and> (parse_brew_info_batch e pkgs = Inr (rs, c) \<and> Some info \<in> set rs \<and> is_cask info \<longrightarrow>
      build_dependencies info = [] \<and> runtime_dependencies info = [])"
proof -
  have single: "build_dependencies info = [] \<and> runtime_dependencies info = []"
    if h: "parse_brew_info e n True = Inr (Some info, c)"
  proof -
    obtain j where "package_info n True j = Inr info"
      using parse_brew_info_Some[OF h] by blast
    then show ?thesis using package_info_cask by blast
  qed
  have api: "build_dependencies info = [] \<and> runtime_dependencies info = []"
    if h: "parse_api_data n True formulas casks = Inr (Some info)"
  proof -
    obtain j where "package_info n True j = Inr info"
      using parse_api_data_Some[OF h] by blast
    then show ?thesis using package_info_cask by blast
  qed
  have batch: "build_dependencies info = [] \<and> runtime_dependencies info = []"
    if a: "parse_brew_info_batch e pkgs = Inr (rs, c)" "Some info \<in> set rs" "is_cask info"
  proof -
    obtain rs1 c1 rs2 c2 where
      q1: "query_batch e False (map fst (filter (\<lambda>pkg. \<not> snd pkg) pkgs)) = Inr (rs1, c1)" and
      q2: "query_batch e True (map fst (filter (\<lambda>pkg. snd pkg) pkgs)) = Inr (rs2, c2)" and
      rs: "rs = rs1 @ rs2"
      using parse_brew_info_batch_split[OF a(1)] by blast
    have "Some info \<notin> set rs1"
    proof
      assume "Some info \<in> set rs1"
      then obtain i where i: "i < length rs1" "rs1 ! i = Some info"
        by (auto simp: in_set_conv_nth)
      have "answers (map (\<lambda>n. (n, False)) (map fst (filter (\<lambda>pkg. \<not> snd pkg) pkgs)) ! i) (rs1 ! i)"
        using list_all2_nthD2[OF query_batch_answers[OF q1] i(1)] .
      moreover have "i < length (map fst (filter (\<lambda>pkg. \<not> snd pkg) pkgs))"
        using list_all2_lengthD[OF query_batch_answers[OF q1]] i(1) by simp
      ultimately have "\<not> is_cask info"
        using i(2) by (simp add: answers_simps)
      then show False using a(3) by simp
    qed
    then have "Some info \<in> set rs2" using a(2) rs by simp
    then show ?thesis using query_batch_cask[OF q2] by blast
  qed
  show ?thesis using single api batch by blast
qed

theorem cask_records_have_no_dependencies_witness:
  "parse_brew_info demo_env ''C'' True
     = Inr (Some (cask_info ''C'' [(''token'', JStr ''C''), (''dependencies'', JArr [JStr ''Z''])]),
            [[''info'', ''--json'', ''--cask'', ''C'']])
   \<and> parse_api_data ''C'' True []
        [(JStr ''C'', JObj [(''token'', JStr ''C''), (''dependencies'', JArr [JStr ''Z''])])]
     = Inr (Some (cask_info ''C'' [(''token'', JStr ''C''), (''dependencies'', JArr [JStr ''Z''])]))
   \<and> parse_brew_info_batch demo_env [(''C'', True)]
     = Inr ([Some (cask_info ''C'' [(''token'', JStr ''C''), (''dependencies'', JArr [JStr ''Z''])])],
            [[''info'', ''--json'', ''--cask'', ''C'']])
   \<and> is_cask (cask_info ''C'' [(''token'', JStr ''C''), (''dependencies'', JArr [JStr ''Z''])])
   \<and> build_dependencies
        (cask_info ''C'' [(''token'', JStr ''C''), (''dependencies'', JArr [JStr ''Z''])]) = []
   \<and> runtime_dependencies
        (cask_info ''C'' [(''token'', JStr ''C''), (''dependencies'', JArr [JStr ''Z''])]) = []"
proof -
  let ?r = "cask_info ''C'' [(''token'', JStr ''C''), (''dependencies'', JArr [JStr ''Z''])]"
  have h1: "parse_brew_info demo_env ''C'' True = Inr (Some ?r, [[''info'', ''--json'', ''--cask'', ''C'']])"
    by (simp add: parse_brew_info_def info_args_def run_brew_command_def demo_env_def
          strip_def is_space_def)
  have h2: "parse_api_data ''C'' True []
        [(JStr ''C'', JObj [(''token'', JStr ''C''), (''dependencies'', JArr [JStr ''Z''])])]
     = Inr (Some ?r)"
    by (simp add: parse_api_data_def)
  have h3: "parse_brew_info_batch demo_env [(''C'', True)]
     = Inr ([Some ?r], [[''info'', ''--json'', ''--cask'', ''C'']])"
    by (simp add: parse_brew_info_batch_def query_batch_def batch_args_def run_brew_command_def
          demo_env_def strip_def is_space_def dict_by_def)
  have h4: "is_cask ?r" by (simp add: cask_info_def)
  have h5: "Some ?r \<in> set [Some ?r]" by simp
  show ?thesis
    using cask_records_have_no_dependencies[of demo_env "''C''" ?r
            "[[''info'', ''--json'', ''--cask'', ''C'']]" "[]"
            "[(JStr ''C'', JObj [(''token'', JStr ''C''), (''dependencies'', JArr [JStr ''Z''])])]"
            "[(''C'', True)]" "[Some ?r]"]
          h1 h2 h3 h4 h5
    by blast
qed

section \<open>The queries of the batch strategy\<close>

lemma batches_Nil: "batches B [] = []"
  by (subst batches.simps) simp

lemma batches_step: "0 < B \<Longrightarrow> xs \<noteq> [] \<Longrightarrow> batches B xs = take B xs # batches B (drop B xs)"
  by (subst batches.simps) simp

lemma concat_batches: "0 < B \<Longrightarrow> concat (batches B xs) = xs"
proof (induction B xs rule: batches.induct)
  case (1 B xs)
  show ?case
  proof (cases "xs = []")
    case True
    then show ?thesis by (simp add: batches_Nil)
  next
    case False
    then show ?thesis using "1.IH" "1.prems" by (simp add: batches_step)
  qed
qed

lemma query_batch_calls:
  assumes "query_batch e ic names = Inr (rs, c)"
  shows "c = (if names = [] then [] else [batch_args ic names])"
  using assms
  by (auto simp: query_batch_def run_brew_command_def
           split: sum.splits if_splits option.splits reply.splits)

lemma parse_brew_info_batch_calls:
  assumes "parse_brew_info_batch e pkgs = Inr (rs, c)"
  shows "c = map (\<lambda>q. batch_args (fst q) (snd q)) (batch_queries pkgs)"
proof -
  obtain rs1 c1 rs2 c2 where
    q1: "query_batch e False (map fst (filter (\<lambda>pkg. \<not> snd pkg) pkgs)) = Inr (rs1, c1)" and
    q2: "query_batch e True (map fst (filter (\<lambda>pkg. snd pkg) pkgs)) = Inr (rs2, c2)" and
    c: "c = c1 @ c2"
    using parse_brew_info_batch_split[OF assms] by blast
  show ?thesis
    unfolding c query_batch_calls[OF q1] query_batch_calls[OF q2]
    by (simp add: batch_queries_def)
qed

lemma run_batches_calls:
  "run_batches e bs pk = Inr (pk', c) \<Longrightarrow>
     c = map (\<lambda>q. batch_args (fst q) (snd q)) (concat (map batch_queries bs))"
proof (induction bs arbitrary: pk pk' c)
  case Nil
  then show ?case by simp
next
  case (Cons b bs)
  from Cons.prems obtain rs c1 pk2 c2 where
    b: "parse_brew_info_batch e b = Inr (rs, c1)" and
    r: "run_batches e bs (fold store (zip b rs) pk) = Inr (pk2, c2)" and
    c: "c = c1 @ c2"
    by (auto split: sum.splits)
  show ?case
    unfolding c parse_brew_info_batch_calls[OF b] Cons.IH[OF r] by simp
qed

lemma formula_names_of_queries:
  "concat (map snd (filter (\<lambda>q. \<not> fst q) (concat (map batch_queries bs))))
     = map fst (filter (\<lambda>pkg. \<not> snd pkg) (concat bs))"
  by (induction bs) (auto simp: batch_queries_def Let_def)

lemma cask_names_of_queries:
  "concat (map snd (filter (\<lambda>q. fst q) (concat (map batch_queries bs))))
     = map fst (filter (\<lambda>pkg. snd pkg) (concat bs))"
  by (induction bs) (auto simp: batch_queries_def Let_def)

lemma enumeration_names:
  "map fst (filter (\<lambda>pkg. \<not> snd pkg) (enumeration fs cs)) = fs"
  "map fst (filter (\<lambda>pkg. snd pkg) (enumeration fs cs)) = cs"
  by (simp_all add: enumeration_def filter_map comp_def)

lemma div_add_multiple: "0 < B \<Longrightarrow> (a + q * B) div B = q + a div (B::nat)"
  by simp

lemma div_add_self: "0 < B \<Longrightarrow> (a + B) div B = Suc (a div (B::nat))"
  using div_add_multiple[of B a 1] by simp

lemma ceil_div_0: "0 < B \<Longrightarrow> ceil_div 0 B = 0"
  by (simp add: ceil_div_def)

lemma ceil_div_pos:
  assumes "0 < B" and "0 < n"
  shows "ceil_div n B = Suc ((n - 1) div B)"
proof -
  have e: "n + B - 1 = (n - 1) + B" using assms(2) by arith
  show ?thesis unfolding ceil_div_def e by (rule div_add_self[OF assms(1)])
qed

lemma ceil_div_step:
  assumes "0 < B" and "0 < n"
  shows "ceil_div n B = Suc (ceil_div (n - B) B)"
proof (cases "B \<le> n")
  case True
  have e: "n - B + B - 1 = n - 1" using True by arith
  have "ceil_div (n - B) B = (n - 1) div B"
    unfolding ceil_div_def e ..
  then show ?thesis using ceil_div_pos[OF assms] by simp
next
  case False
  then have z: "n - B = 0" by arith
  have "n - 1 < B" using False by arith
  then have "(n - 1) div B = 0" by (rule div_less)
  then show ?thesis
    unfolding z using ceil_div_pos[OF assms] ceil_div_0[OF assms(1)] by simp
qed

lemma length_batch_queries_enumeration:
  "length (batch_queries (enumeration fs cs)) = (if fs = [] then 0 else 1) + (if cs = [] then 0 else 1)"
  by (simp add: batch_queries_def enumeration_names)

lemma take_enumeration:
  "take B (enumeration fs cs) = enumeration (take B fs) (take (B - length fs) cs)"
  by (simp add: enumeration_def take_map)

lemma drop_enumeration:
  "drop B (enumeration fs cs) = enumeration (drop B fs) (drop (B - length fs) cs)"
  by (simp add: enumeration_def drop_map)

lemma enumeration_Nil_iff: "enumeration fs cs = [] \<longleftrightarrow> fs = [] \<and> cs = []"
  by (simp add: enumeration_def)

lemma planned_step:
  assumes "0 < B" "fs \<noteq> [] \<or> cs \<noteq> []"
  shows "length (planned_queries B (enumeration fs cs)) =
           (if take B fs = [] then 0 else 1) + (if take (B - length fs) cs = [] then 0 else 1) +
           length (planned_queries B (enumeration (drop B fs) (drop (B - length fs) cs)))"
  using assms
  by (simp add: planned_queries_def batches_step enumeration_Nil_iff take_enumeration
        drop_enumeration length_batch_queries_enumeration)

lemma planned_casks:
  "0 < B \<Longrightarrow> length (planned_queries B (enumeration [] cs)) = ceil_div (length cs) B"
proof (induction "length cs" arbitrary: cs rule: less_induct)
  case less
  show ?case
  proof (cases "cs = []")
    case True
    then show ?thesis using less.prems
      by (simp add: planned_queries_def enumeration_def batches_Nil ceil_div_0)
  next
    case False
    have "length (planned_queries B (enumeration [] cs)) =
            1 + length (planned_queries B (enumeration [] (drop B cs)))"
      using planned_step[of B "[]" cs] False less.prems by simp
    also have "\<dots> = 1 + ceil_div (length cs - B) B"
      using less.hyps[of "drop B cs"] False less.prems by simp
    finally show ?thesis
      using ceil_div_step[of B "length cs"] False less.prems by simp
  qed
qed

lemma planned_count:
  "0 < B \<Longrightarrow> length (planned_queries B (enumeration fs cs)) =
     ceil_div (length fs) B +
     (if cs = [] then 0 else ceil_div (length fs + length cs) B - length fs div B)"
proof (induction "length fs" arbitrary: fs rule: less_induct)
  case less
  show ?case
  proof (cases "fs = []")
    case True
    then show ?thesis using less.prems
      by (simp add: planned_casks ceil_div_0)
  next
    case fs: False
    show ?thesis
    proof (cases "B \<le> length fs")
      case True
      have "length (planned_queries B (enumeration fs cs)) =
              1 + length (planned_queries B (enumeration (drop B fs) cs))"
        using planned_step[of B fs cs] fs True less.prems by simp
      also have "\<dots> = 1 + (ceil_div (length fs - B) B +
            (if cs = [] then 0 else ceil_div (length fs - B + length cs) B - (length fs - B) div B))"
        using less.hyps[of "drop B fs"] fs less.prems by simp
      finally have eq: "length (planned_queries B (enumeration fs cs)) =
          1 + (ceil_div (length fs - B) B +
            (if cs = [] then 0 else ceil_div (length fs - B + length cs) B - (length fs - B) div B))" .
      have a: "ceil_div (length fs) B = Suc (ceil_div (length fs - B) B)"
        using ceil_div_step[of B "length fs"] fs less.prems by simp
      have b: "ceil_div (length fs + length cs) B = Suc (ceil_div (length fs - B + length cs) B)"
        using ceil_div_step[of B "length fs + length cs"] fs less.prems True by simp
      have c: "length fs div B = Suc ((length fs - B) div B)"
        using True less.prems by (simp add: le_div_geq)
      show ?thesis unfolding eq a b c by simp
    next
      case False
      have "length (planned_queries B (enumeration fs cs)) =
              1 + (if cs = [] then 0 else 1) +
              length (planned_queries B (enumeration [] (drop (B - length fs) cs)))"
        using planned_step[of B fs cs] fs False less.prems by simp
      then have eq: "length (planned_queries B (enumeration fs cs)) =
              1 + (if cs = [] then 0 else 1) + ceil_div (length cs - (B - length fs)) B"
        using less.prems by (simp add: planned_casks)
      have a: "ceil_div (length fs) B = 1"
        using ceil_div_step[of B "length fs"] fs False less.prems by (simp add: ceil_div_0)
      have c: "length fs div B = 0" using False by simp
      show ?thesis
      proof (cases "cs = []")
        case True
        then show ?thesis unfolding eq a c using less.prems by (simp add: ceil_div_0)
      next
        case cs: False
        have "length cs - (B - length fs) = length fs + length cs - B" using False by simp
        then have "ceil_div (length fs + length cs) B = Suc (ceil_div (length cs - (B - length fs)) B)"
          using ceil_div_step[of B "length fs + length cs"] fs less.prems by simp
        then show ?thesis unfolding eq a c using cs by simp
      qed
    qed
  qed
qed

lemma cask_queries_eq:
  assumes "0 < B"
  shows "ceil_div (F + C) B - F div B = ceil_div (F mod B + C) B"
proof -
  have e1: "F div B * B + F mod B = F" by (rule div_mult_mod_eq)
  have "F + C + B - 1 = (F mod B + C + B - 1) + F div B * B"
    using e1 assms by arith
  then have "(F + C + B - 1) div B = ((F mod B + C + B - 1) + F div B * B) div B"
    by (rule arg_cong)
  also have "\<dots> = F div B + (F mod B + C + B - 1) div B"
    by (rule div_add_multiple[OF assms])
  finally have "(F + C + B - 1) div B - F div B = (F mod B + C + B - 1) div B"
    by arith
  then show ?thesis
    unfolding ceil_div_def .
qed

lemma cask_queries_bounds:
  assumes "0 < B"
  shows "ceil_div C B \<le> ceil_div (F + C) B - F div B"
    and "ceil_div (F + C) B - F div B \<le> ceil_div C B + 1"
    and "B dvd F \<Longrightarrow> ceil_div (F + C) B - F div B = ceil_div C B"
proof -
  note eq = cask_queries_eq[OF assms, of F C]
  have "C + B - 1 \<le> F mod B + C + B - 1" by arith
  then have "(C + B - 1) div B \<le> (F mod B + C + B - 1) div B"
    by (rule div_le_mono)
  then show "ceil_div C B \<le> ceil_div (F + C) B - F div B"
    unfolding eq unfolding ceil_div_def .
  have "F mod B + C + B - 1 \<le> (C + B - 1) + B"
    using assms mod_less_divisor[of B F] by arith
  then have "(F mod B + C + B - 1) div B \<le> ((C + B - 1) + B) div B"
    by (rule div_le_mono)
  also have "\<dots> = Suc ((C + B - 1) div B)"
    by (rule div_add_self[OF assms])
  finally show "ceil_div (F + C) B - F div B \<le> ceil_div C B + 1"
    unfolding eq unfolding ceil_div_def by simp
  show "ceil_div (F + C) B - F div B = ceil_div C B" if "B dvd F"
    unfolding eq using that by simp
qed

text \<open>
  Claim C2, as stated, fails: one formula, two casks and batches of two give three queries
  (the slice holding the formula and the first cask is asked once per kind), not
  \<open>ceil(1/2) + ceil(2/2) = 2\<close>.
\<close>

theorem batch_query_count_counterexample:
  "batch_phase demo_env (enumeration [''a''] [''b'', ''c'']) (new_optimized False 2)
     = Inr (new_optimized False 2,
            [[''info'', ''--json'', ''a''],
             [''info'', ''--json'', ''--cask'', ''b''],
             [''info'', ''--json'', ''--cask'', ''c'']])
   \<and> length [[''info'', ''--json'', ''a''],
              [''info'', ''--json'', ''--cask'', ''b''],
              [''info'', ''--json'', ''--cask'', ''c'']]
       \<noteq> ceil_div (length [''a'']) 2 + ceil_div (length [''b'', ''c'']) 2"
proof -
  have b: "batches 2 (enumeration [''a''] [''b'', ''c''])
             = [[(''a'', False), (''b'', True)], [(''c'', True)]]"
    by (simp add: enumeration_def batches_step batches_Nil)
  have "batch_phase demo_env (enumeration [''a''] [''b'', ''c'']) (new_optimized False 2)
     = Inr (new_optimized False 2,
            [[''info'', ''--json'', ''a''],
             [''info'', ''--json'', ''--cask'', ''b''],
             [''info'', ''--json'', ''--cask'', ''c'']])"
    unfolding batch_phase_def
    by (simp add: b new_optimized_def parse_brew_info_batch_def query_batch_def batch_args_def
          run_brew_command_def demo_env_def store_def)
  then show ?thesis by (simp add: ceil_div_def)
qed

text \<open>
  Claim C2, amended. For a list of F formulas followed by C casks and a batch size
  \<open>B > 0\<close>, a batch run that returns has issued exactly one query per slice of B
  consecutive identities and kind present in the slice: \<open>ceil(F/B)\<close> formula queries and,
  when there are casks, \<open>ceil((F+C)/B) - floor(F/B)\<close> cask queries. That is at least
  \<open>ceil(F/B) + ceil(C/B)\<close>, at most one more, and equal to it when B divides F. The
  names of the formula queries, in order, are the formulas and those of the cask queries
  are the casks: every identity is in exactly one query, with identities of its own kind
  only.
\<close>

theorem batch_queries_per_slice_and_kind:
  assumes "0 < B"
    and "run_batches e (batches B (enumeration fs cs)) pk = Inr (pk', c)"
  shows "c = map (\<lambda>q. batch_args (fst q) (snd q)) (planned_queries B (enumeration fs cs))
       \<and> length c = ceil_div (length fs) B +
            (if cs = [] then 0 else ceil_div (length fs + length cs) B - length fs div B)
       \<and> ceil_div (length fs) B + ceil_div (length cs) B \<le> length c
       \<and> length c \<le> ceil_div (length fs) B + ceil_div (length cs) B + 1
       \<and> (B dvd length fs \<longrightarrow> length c = ceil_div (length fs) B + ceil_div (length cs) B)
       \<and> concat (map snd (filter (\<lambda>q. \<not> fst q) (planned_queries B (enumeration fs cs)))) = fs
       \<and> concat (map snd (filter (\<lambda>q. fst q) (planned_queries B (enumeration fs cs)))) = cs"
proof -
  have c: "c = map (\<lambda>q. batch_args (fst q) (snd q)) (planned_queries B (enumeration fs cs))"
    using run_batches_calls[OF assms(2)] by (simp add: planned_queries_def)
  have len: "length c = ceil_div (length fs) B +
            (if cs = [] then 0 else ceil_div (length fs + length cs) B - length fs div B)"
    unfolding c using planned_count[OF assms(1)] by simp
  have lower: "ceil_div (length fs) B + ceil_div (length cs) B \<le> length c"
    unfolding len using cask_queries_bounds(1)[OF assms(1), of "length cs" "length fs"] assms(1)
    by (simp add: ceil_div_0)
  have upper: "length c \<le> ceil_div (length fs) B + ceil_div (length cs) B + 1"
    unfolding len using cask_queries_bounds(2)[OF assms(1), of "length fs" "length cs"]
    by simp
  have exact: "length c = ceil_div (length fs) B + ceil_div (length cs) B" if "B dvd length fs"
    unfolding len using cask_queries_bounds(3)[OF assms(1) that, of "length cs"] assms(1)
    by (simp add: ceil_div_0)
  have f: "concat (map snd (filter (\<lambda>q. \<not> fst q) (planned_queries B (enumeration fs cs)))) = fs"
    unfolding planned_queries_def formula_names_of_queries concat_batches[OF assms(1)]
    by (rule enumeration_names)
  have k: "concat (map snd (filter (\<lambda>q. fst q) (planned_queries B (enumeration fs cs)))) = cs"
    unfolding planned_queries_def cask_names_of_queries concat_batches[OF assms(1)]
    by (rule enumeration_names)
  show ?thesis using c len lower upper exact f k by blast
qed

theorem batch_queries_per_slice_and_kind_witness:
  "(0::nat) < 2
   \<and> run_batches demo_env (batches 2 (enumeration [''a''] [''b'', ''c''])) []
       = Inr ([], [[''info'', ''--json'', ''a''],
                   [''info'', ''--json'', ''--cask'', ''b''],
                   [''info'', ''--json'', ''--cask'', ''c'']])
   \<and> length [[''info'', ''--json'', ''a''],
              [''info'', ''--json'', ''--cask'', ''b''],
              [''info'', ''--json'', ''--cask'', ''c'']]
       = ceil_div (length [''a'']) 2 +
         (if [''b'', ''c''] = [] then 0
          else ceil_div (length [''a''] + length [''b'', ''c'']) 2 - length [''a''] div 2)
   \<and> concat (map snd (filter (\<lambda>q. fst q)
         (planned_queries 2 (enumeration [''a''] [''b'', ''c''])))) = [''b'', ''c'']"
proof -
  have h1: "(0::nat) < 2" by simp
  have b: "batches 2 (enumeration [''a''] [''b'', ''c''])
             = [[(''a'', False), (''b'', True)], [(''c'', True)]]"
    by (simp add: enumeration_def batches_step batches_Nil)
  have h2: "run_batches demo_env (batches 2 (enumeration [''a''] [''b'', ''c''])) []
       = Inr ([], [[''info'', ''--json'', ''a''],
                   [''info'', ''--json'', ''--cask'', ''b''],
                   [''info'', ''--json'', ''--cask'', ''c'']])"
    by (simp add: b parse_brew_info_batch_def query_batch_def batch_args_def
          run_brew_command_def demo_env_def store_def)
  show ?thesis
    using batch_queries_per_slice_and_kind[OF h1 h2] h1 h2 by blast
qed

section \<open>Catalogs as dictionaries\<close>

lemma map_of_put: "map_of (put u pk) = (map_of pk)(fst u \<mapsto> snd u)"
  by (simp add: put_def update_conv')

lemma map_of_fold_put: "map_of (fold put ups pk) = map_of pk ++ map_of (rev ups)"
proof (induction ups arbitrary: pk)
  case Nil
  show ?case by simp
next
  case (Cons u ups)
  have "map_of (fold put (u # ups) pk) = map_of (put u pk) ++ map_of (rev ups)"
    using Cons.IH[of "put u pk"] by simp
  also have "\<dots> = (map_of pk)(fst u \<mapsto> snd u) ++ map_of (rev ups)"
    by (simp only: map_of_put)
  also have "\<dots> = map_of pk ++ ([fst u \<mapsto> snd u] ++ map_of (rev ups))"
    by (rule ext) (simp add: map_add_def split: option.splits)
  also have "[fst u \<mapsto> snd u] ++ map_of (rev ups) = map_of (rev (u # ups))"
    by (cases u) simp
  finally show ?case .
qed


lemma distinct_fold_put:
  "distinct (map fst pk) \<Longrightarrow> distinct (map fst (fold put ups pk))"
  by (induction ups arbitrary: pk) (simp_all add: put_def distinct_update)

lemma set_put: "set (put u pk) \<subseteq> insert (fst u, snd u) (set pk)"
  unfolding put_def by (induction pk) auto

lemma names_fold_put:
  assumes "\<forall>item \<in> set pk. name (snd item) = fst item"
    and "\<forall>u \<in> set ups. name (snd u) = fst u"
  shows "\<forall>item \<in> set (fold put ups pk). name (snd item) = fst item"
  using assms
proof (induction ups arbitrary: pk)
  case Nil
  then show ?case by simp
next
  case (Cons u ups)
  have "\<forall>item \<in> set (put u pk). name (snd item) = fst item"
    using Cons.prems set_put[of u pk] by auto
  then show ?case using Cons.IH[of "put u pk"] Cons.prems by simp
qed

lemma map_of_unique:
  assumes "(k, v) \<in> set xs" and "\<forall>v'. (k, v') \<in> set xs \<longrightarrow> v' = v"
  shows "map_of xs k = Some v"
proof -
  have "k \<in> fst ` set xs" using assms(1) by force
  then obtain v' where v': "map_of xs k = Some v'"
    by (cases "map_of xs k") (auto simp: map_of_eq_None_iff)
  then have "(k, v') \<in> set xs" by (rule map_of_SomeD)
  then show ?thesis using assms(2) v' by simp
qed

section \<open>The loop of brewinfo.py\<close>

lemma resolve_each_step:
  assumes "resolve_each e ((n, ic) # il) pk = Inr (pk', c)"
  shows "\<exists>r c1 c2. parse_brew_info e n ic = Inr (r, c1) \<and>
           resolve_each e il (case r of None \<Rightarrow> pk | Some info \<Rightarrow> AList.update n info pk)
             = Inr (pk', c2) \<and> c = c1 @ c2"
  using assms by (auto split: sum.splits)

lemma single_updates_step:
  "parse_brew_info e n ic = Inr (r, c1) \<Longrightarrow>
     single_updates e ((n, ic) # il) =
       (case r of None \<Rightarrow> [] | Some info \<Rightarrow> [(n, info)]) @ single_updates e il"
  by (cases r) simp_all

lemma resolve_each_updates:
  "resolve_each e il pk = Inr (pk', c) \<Longrightarrow> pk' = fold put (single_updates e il) pk"
proof (induction il arbitrary: pk pk' c)
  case Nil
  then show ?case by simp
next
  case (Cons p il)
  obtain n ic where p: "p = (n, ic)" by (cases p)
  obtain r c1 c2 where
    q: "parse_brew_info e n ic = Inr (r, c1)" and
    rest: "resolve_each e il (case r of None \<Rightarrow> pk | Some info \<Rightarrow> AList.update n info pk) = Inr (pk', c2)"
    using resolve_each_step[OF Cons.prems[unfolded p]] by blast
  show ?case
    unfolding p single_updates_step[OF q] using Cons.IH[OF rest]
    by (cases r) (simp_all add: put_def)
qed

lemma parse_brew_info_calls:
  "parse_brew_info e n ic = Inr (r, c) \<Longrightarrow> c = [info_args n ic]"
  unfolding parse_brew_info_def run_brew_command_def
  by (cases "brew e (info_args n ic)")
     (auto split: sum.splits if_splits option.splits)

lemma resolve_each_calls:
  "resolve_each e il pk = Inr (pk', c) \<Longrightarrow> c = map (\<lambda>p. info_args (fst p) (snd p)) il"
proof (induction il arbitrary: pk pk' c)
  case Nil
  then show ?case by simp
next
  case (Cons p il)
  obtain n ic where p: "p = (n, ic)" by (cases p)
  obtain r c1 c2 where
    q: "parse_brew_info e n ic = Inr (r, c1)" and
    rest: "resolve_each e il (case r of None \<Rightarrow> pk | Some info \<Rightarrow> AList.update n info pk) = Inr (pk', c2)" and
    c: "c = c1 @ c2"
    using resolve_each_step[OF Cons.prems[unfolded p]] by blast
  show ?case
    unfolding c parse_brew_info_calls[OF q] Cons.IH[OF rest] p by simp
qed

lemma single_updates_append:
  "single_updates e (xs @ ys) = single_updates e xs @ single_updates e ys"
proof (induction xs)
  case Nil
  show ?case by simp
next
  case (Cons p xs)
  obtain n ic where p: "p = (n, ic)" by (cases p)
  show ?case
  proof (cases "parse_brew_info e n ic")
    case (Inl x)
    then show ?thesis unfolding p using Cons.IH by simp
  next
    case (Inr rc)
    obtain r c1 where "rc = (r, c1)" by (cases rc)
    then have q: "parse_brew_info e n ic = Inr (r, c1)" using Inr by simp
    show ?thesis
      unfolding p append_Cons single_updates_step[OF q] Cons.IH by simp
  qed
qed

lemma single_updates_member:
  "(n, info) \<in> set (single_updates e il) \<longleftrightarrow>
     (\<exists>ic c. (n, ic) \<in> set il \<and> parse_brew_info e n ic = Inr (Some info, c))"
proof (induction il)
  case Nil
  show ?case by simp
next
  case (Cons p il)
  obtain m ic where p: "p = (m, ic)" by (cases p)
  show ?case
  proof (cases "parse_brew_info e m ic")
    case (Inl x)
    then have "single_updates e (p # il) = single_updates e il" unfolding p by simp
    then show ?thesis using Cons.IH Inl unfolding p by auto
  next
    case (Inr rc)
    obtain r c1 where "rc = (r, c1)" by (cases rc)
    then have q: "parse_brew_info e m ic = Inr (r, c1)" using Inr by simp
    show ?thesis
    proof (cases r)
      case None
      then have "single_updates e (p # il) = single_updates e il"
        unfolding p single_updates_step[OF q] by simp
      then show ?thesis using Cons.IH q None unfolding p by auto
    next
      case (Some v)
      then have "single_updates e (p # il) = (m, v) # single_updates e il"
        unfolding p single_updates_step[OF q] by simp
      then show ?thesis using Cons.IH q Some unfolding p by auto
    qed
  qed
qed

lemma single_updates_names:
  "\<forall>u \<in> set (single_updates e il). name (snd u) = fst u"
proof
  fix u assume "u \<in> set (single_updates e il)"
  then have "(fst u, snd u) \<in> set (single_updates e il)" by simp
  then obtain ic c where "parse_brew_info e (fst u) ic = Inr (Some (snd u), c)"
    unfolding single_updates_member by blast
  then obtain j where "package_info (fst u) ic j = Inr (snd u)"
    using parse_brew_info_Some by blast
  then show "name (snd u) = fst u" using package_info_name by blast
qed

lemma run_brew_command_calls:
  "run_brew_command e args = Inr (out, c) \<Longrightarrow> c = [args]"
  unfolding run_brew_command_def by (cases "brew e args") auto

lemma get_installed_packages_enumeration:
  assumes "get_installed_packages e = Inr (il, c)"
  shows "\<exists>fs cs. il = enumeration fs cs" and "c = [[''list'', ''--formula''], [''list'', ''--cask'']]"
proof -
  obtain o1 c1 o2 c2 where
    r1: "run_brew_command e [''list'', ''--formula''] = Inr (o1, c1)" and
    r2: "run_brew_command e [''list'', ''--cask''] = Inr (o2, c2)" and
    il: "il = enumeration (filter (\<lambda>pkg. pkg \<noteq> []) (if o1 \<noteq> [] then split_nl o1 else []))
                          (filter (\<lambda>cask. cask \<noteq> []) (if o2 \<noteq> [] then split_nl o2 else []))" and
    c: "c = c1 @ c2"
    using assms unfolding get_installed_packages_def enumeration_def Let_def
    by (auto split: sum.splits)
  show "\<exists>fs cs. il = enumeration fs cs" using il by blast
  show "c = [[''list'', ''--formula''], [''list'', ''--cask'']]"
    unfolding c run_brew_command_calls[OF r1] run_brew_command_calls[OF r2] by simp
qed

lemma analyze_packages_result:
  assumes "analyze_packages e st = Inr (st', c)"
    and "get_installed_packages e = Inr (il, c0)"
    and "il \<noteq> []"
  shows "packages st' = fold put (single_updates e il) (packages st)"
    and "c = c0 @ map (\<lambda>p. info_args (fst p) (snd p)) il"
    and "installed_packages st' = set (map fst il)"
proof -
  from assms obtain pk c1 where
    r: "resolve_each e il (packages st) = Inr (pk, c1)" and
    st': "st' = build_reverse_dependencies (st\<lparr>installed_packages := set (map fst il), packages := pk\<rparr>)" and
    c: "c = c0 @ c1"
    by (auto simp: analyze_packages_def Let_def split: sum.splits)
  show "packages st' = fold put (single_updates e il) (packages st)"
    unfolding st' using resolve_each_updates[OF r] by (simp add: build_reverse_dependencies_def)
  show "c = c0 @ map (\<lambda>p. info_args (fst p) (snd p)) il"
    unfolding c using resolve_each_calls[OF r] by simp
  show "installed_packages st' = set (map fst il)"
    unfolding st' by (simp add: build_reverse_dependencies_def)
qed

section \<open>Falling back from the remote source\<close>

lemma fetch_api_data_unavailable:
  assumes "api_cache st = None" and "api_unavailable e"
  shows "fetch_api_data e st = Inr (([], []), st)"
  using assms unfolding fetch_api_data_def api_unavailable_def
  by (auto split: option.splits sum.splits)


lemma api_phase_unavailable:
  assumes "api_cache st = None" and "api_unavailable e"
  shows "api_phase e il st = Inr (st\<lparr>use_api := False\<rparr>)"
  unfolding api_phase_def fetch_api_data_unavailable[OF assms] by simp

lemma batch_phase_use_api:
  "batch_phase e il st = Inr (st', c) \<Longrightarrow> use_api st' = use_api st"
  unfolding batch_phase_def by (auto split: if_splits sum.splits)

lemma build_reverse_dependencies_use_api:
  "use_api (build_reverse_dependencies st) = use_api st"
  by (simp add: build_reverse_dependencies_def)



section \<open>A failed batch query\<close>




lemma store_lookup:
  "map_of (store (p, r) pk) n =
     (if n = fst p then (case r of None \<Rightarrow> map_of pk n | Some info \<Rightarrow> Some info)
      else map_of pk n)"
  by (cases r) (simp_all add: store_def update_conv')








section \<open>Two runs in worlds that answer alike\<close>

lemma same_responses_append:
  "same_responses e1 e2 (c1 @ c2) \<longleftrightarrow> same_responses e1 e2 c1 \<and> same_responses e1 e2 c2"
  by (simp add: same_responses_def)

lemma same_responses_map:
  "same_responses e1 e2 (map f xs) \<longleftrightarrow> (\<forall>x \<in> set xs. same_reply e1 e2 (f x))"
  by (simp add: same_responses_def list_all_iff)

lemma run_brew_command_same:
  "same_reply e1 e2 args \<Longrightarrow> run_brew_command e2 args = run_brew_command e1 args"
  by (simp add: same_reply_def run_brew_command_def)

lemma get_installed_packages_same:
  assumes "same_reply e1 e2 [''list'', ''--formula'']" and "same_reply e1 e2 [''list'', ''--cask'']"
  shows "get_installed_packages e2 = get_installed_packages e1"
  unfolding get_installed_packages_def
    run_brew_command_same[OF assms(1)] run_brew_command_same[OF assms(2)] ..

lemma parse_brew_info_same:
  assumes "same_reply e1 e2 (info_args n ic)"
  shows "parse_brew_info e2 n ic = parse_brew_info e1 n ic"
proof (cases "brew e1 (info_args n ic)")
  case (Completed out)
  then have "brew e2 (info_args n ic) = Completed out"
    and "loads e2 (strip out) = loads e1 (strip out)"
    using assms by (simp_all add: same_reply_def)
  then show ?thesis using Completed
    by (simp add: parse_brew_info_def run_brew_command_def)
next
  case FileNotFoundError
  then have "brew e2 (info_args n ic) = FileNotFoundError"
    using assms by (simp add: same_reply_def)
  then show ?thesis using FileNotFoundError
    by (simp add: parse_brew_info_def run_brew_command_def)
next
  case CalledProcessError
  then have "brew e2 (info_args n ic) = CalledProcessError"
    using assms by (simp add: same_reply_def)
  then show ?thesis using CalledProcessError
    by (simp add: parse_brew_info_def run_brew_command_def)
next
  case (Raised x)
  then have "brew e2 (info_args n ic) = Raised x"
    using assms by (simp add: same_reply_def)
  then show ?thesis using Raised
    by (simp add: parse_brew_info_def run_brew_command_def)
qed

lemma resolve_each_same:
  "\<forall>p \<in> set il. same_reply e1 e2 (info_args (fst p) (snd p)) \<Longrightarrow>
     resolve_each e2 il pk = resolve_each e1 il pk"
proof (induction il arbitrary: pk)
  case Nil
  then show ?case by simp
next
  case (Cons p il)
  obtain n ic where p: "p = (n, ic)" by (cases p)
  have q: "parse_brew_info e2 n ic = parse_brew_info e1 n ic"
    using Cons.prems p by (simp add: parse_brew_info_same)
  have r: "resolve_each e2 il pk' = resolve_each e1 il pk'" for pk'
    using Cons.IH Cons.prems by simp
  show ?case unfolding p resolve_each.simps q r ..
qed

lemma query_batch_same:
  assumes "names \<noteq> [] \<Longrightarrow> same_reply e1 e2 (batch_args ic names)"
  shows "query_batch e2 ic names = query_batch e1 ic names"
proof (cases "names = []")
  case True
  then show ?thesis by (simp add: query_batch_def)
next
  case False
  note s = assms[OF False]
  show ?thesis
  proof (cases "brew e1 (batch_args ic names)")
    case (Completed out)
    then have "brew e2 (batch_args ic names) = Completed out"
      and "loads e2 (strip out) = loads e1 (strip out)"
      using s by (simp_all add: same_reply_def)
    then show ?thesis using Completed
      by (simp add: query_batch_def run_brew_command_def)
  next
    case FileNotFoundError
    then have "brew e2 (batch_args ic names) = FileNotFoundError"
      using s by (simp add: same_reply_def)
    then show ?thesis using FileNotFoundError
      by (simp add: query_batch_def run_brew_command_def)
  next
    case CalledProcessError
    then have "brew e2 (batch_args ic names) = CalledProcessError"
      using s by (simp add: same_reply_def)
    then show ?thesis using CalledProcessError
      by (simp add: query_batch_def run_brew_command_def)
  next
    case (Raised x)
    then have "brew e2 (batch_args ic names) = Raised x"
      using s by (simp add: same_reply_def)
    then show ?thesis using Raised
      by (simp add: query_batch_def run_brew_command_def)
  qed
qed

lemma parse_brew_info_batch_same:
  assumes "\<forall>q \<in> set (batch_queries b). same_reply e1 e2 (batch_args (fst q) (snd q))"
  shows "parse_brew_info_batch e2 b = parse_brew_info_batch e1 b"
proof -
  have f: "query_batch e2 False (map fst (filter (\<lambda>pkg. \<not> snd pkg) b))
         = query_batch e1 False (map fst (filter (\<lambda>pkg. \<not> snd pkg) b))"
    by (rule query_batch_same) (use assms in \<open>simp add: batch_queries_def Let_def\<close>)
  have k: "query_batch e2 True (map fst (filter (\<lambda>pkg. snd pkg) b))
         = query_batch e1 True (map fst (filter (\<lambda>pkg. snd pkg) b))"
    by (rule query_batch_same) (use assms in \<open>simp add: batch_queries_def Let_def\<close>)
  show ?thesis unfolding parse_brew_info_batch_def Let_def f k ..
qed

lemma run_batches_same:
  "\<forall>b \<in> set bs. \<forall>q \<in> set (batch_queries b). same_reply e1 e2 (batch_args (fst q) (snd q)) \<Longrightarrow>
     run_batches e2 bs pk = run_batches e1 bs pk"
proof (induction bs arbitrary: pk)
  case Nil
  then show ?case by simp
next
  case (Cons b bs)
  have q: "parse_brew_info_batch e2 b = parse_brew_info_batch e1 b"
    using Cons.prems by (simp add: parse_brew_info_batch_same)
  have r: "run_batches e2 bs pk' = run_batches e1 bs pk'" for pk'
    using Cons.IH Cons.prems by simp
  show ?case unfolding run_batches.simps q r ..
qed

lemma batch_phase_same:
  assumes "batch_phase e1 il st = Inr (st', c)" and "same_responses e1 e2 c"
  shows "batch_phase e2 il st = Inr (st', c)"
proof (cases "batch_size st \<le> 0")
  case True
  then show ?thesis using assms(1) by (auto simp: batch_phase_def split: if_splits)
next
  case False
  let ?bs = "batches (nat (batch_size st)) il"
  obtain pk where r: "run_batches e1 ?bs (packages st) = Inr (pk, c)"
    using assms(1) False by (auto simp: batch_phase_def split: if_splits sum.splits)
  have "c = map (\<lambda>q. batch_args (fst q) (snd q)) (concat (map batch_queries ?bs))"
    by (rule run_batches_calls[OF r])
  then have "\<forall>b \<in> set ?bs. \<forall>q \<in> set (batch_queries b).
      same_reply e1 e2 (batch_args (fst q) (snd q))"
    using assms(2) by (simp add: same_responses_map)
  then have "run_batches e2 ?bs (packages st) = run_batches e1 ?bs (packages st)"
    by (rule run_batches_same)
  then show ?thesis using assms(1) False by (simp add: batch_phase_def)
qed

lemma fetch_api_data_same:
  assumes "same_manifests e1 e2"
  shows "fetch_api_data e2 st = fetch_api_data e1 st"
proof -
  have f: "fetch e2 formula_url = fetch e1 formula_url"
    and k: "fetch e2 cask_url = fetch e1 cask_url"
    using assms by (simp_all add: same_manifests_def)
  show ?thesis unfolding fetch_api_data_def f k ..
qed

lemma api_phase_same:
  "same_manifests e1 e2 \<Longrightarrow> api_phase e2 il st = api_phase e1 il st"
  unfolding api_phase_def by (simp only: fetch_api_data_same)

lemma same_responses_enumeration:
  assumes "get_installed_packages e1 = Inr (il, c0)" and "same_responses e1 e2 c0"
  shows "get_installed_packages e2 = Inr (il, c0)"
proof -
  have "c0 = [[''list'', ''--formula''], [''list'', ''--cask'']]"
    by (rule get_installed_packages_enumeration(2)[OF assms(1)])
  then have "same_reply e1 e2 [''list'', ''--formula'']" "same_reply e1 e2 [''list'', ''--cask'']"
    using assms(2) by (simp_all add: same_responses_def)
  then show ?thesis using assms(1) by (simp add: get_installed_packages_same)
qed

lemma analyze_packages_same:
  assumes run: "analyze_packages e1 st = Inr (s, c)" and r: "same_responses e1 e2 c"
  shows "analyze_packages e2 st = Inr (s, c)"
proof -
  obtain il c0 where g: "get_installed_packages e1 = Inr (il, c0)"
    using run by (auto simp: analyze_packages_def split: sum.splits)
  have c: "c = c0 @ (if il = [] then [] else map (\<lambda>p. info_args (fst p) (snd p)) il)"
  proof (cases "il = []")
    case True
    then show ?thesis using run g by (simp add: analyze_packages_def)
  next
    case False
    then show ?thesis using analyze_packages_result(2)[OF run g False] by simp
  qed
  have g2: "get_installed_packages e2 = Inr (il, c0)"
    using same_responses_enumeration[OF g] r unfolding c same_responses_append by simp
  have "\<forall>p \<in> set il. same_reply e1 e2 (info_args (fst p) (snd p))"
    using r unfolding c same_responses_append by (cases "il = []") (simp_all add: same_responses_map)
  then have re: "resolve_each e2 il pk = resolve_each e1 il pk" for pk
    by (rule resolve_each_same)
  have "analyze_packages e2 st = analyze_packages e1 st"
    unfolding analyze_packages_def g g2 sum.case prod.case re ..
  then show ?thesis using run by simp
qed

lemma optimized_analyze_packages_unfold:
  assumes "get_installed_packages e = Inr (il, c0)" and "il \<noteq> []"
  shows "optimized_analyze_packages e st =
     (case (if use_api st then api_phase e il (st\<lparr>installed_packages := set (map fst il)\<rparr>)
            else Inr (st\<lparr>installed_packages := set (map fst il)\<rparr>)) of
        Inl x \<Rightarrow> Inl x
      | Inr st2 \<Rightarrow>
          (case (if \<not> use_api st2 then batch_phase e il st2 else Inr (st2, [])) of
             Inl x \<Rightarrow> Inl x
           | Inr (st3, c1) \<Rightarrow> Inr (build_reverse_dependencies st3, c0 @ c1)))"
  unfolding optimized_analyze_packages_def assms(1) Let_def using assms(2) by simp

lemma optimized_analyze_packages_same:
  assumes run: "optimized_analyze_packages e1 st = Inr (s, c)"
    and r: "same_responses e1 e2 c"
    and m: "use_api st \<Longrightarrow> same_manifests e1 e2"
  shows "optimized_analyze_packages e2 st = Inr (s, c)"
proof -
  obtain il c0 where g: "get_installed_packages e1 = Inr (il, c0)"
    using run by (auto simp: optimized_analyze_packages_def split: sum.splits)
  show ?thesis
  proof (cases "il = []")
    case True
    then have "c = c0" using run g by (simp add: optimized_analyze_packages_def)
    then have "get_installed_packages e2 = Inr (il, c0)"
      using same_responses_enumeration[OF g] r by simp
    then show ?thesis using run g True by (simp add: optimized_analyze_packages_def)
  next
    case False
    let ?st1 = "st\<lparr>installed_packages := set (map fst il)\<rparr>"
    let ?a = "\<lambda>e. if use_api st then api_phase e il ?st1 else Inr ?st1"
    let ?b = "\<lambda>e st2. if \<not> use_api st2 then batch_phase e il st2 else Inr (st2, [])"
    note run1 = run[unfolded optimized_analyze_packages_unfold[OF g False]]
    obtain st2 where a: "?a e1 = Inr st2"
      using run1 by (cases "?a e1") simp_all
    note run2 = run1[unfolded a sum.case]
    obtain st3 c1 where b: "?b e1 st2 = Inr (st3, c1)"
      using run2 by (cases "?b e1 st2") auto
    have s: "s = build_reverse_dependencies st3" and c: "c = c0 @ c1"
      using run2 unfolding b by simp_all
    have g2: "get_installed_packages e2 = Inr (il, c0)"
      using same_responses_enumeration[OF g] r unfolding c same_responses_append by simp
    have r1: "same_responses e1 e2 c1"
      using r unfolding c same_responses_append by simp
    have a2: "?a e2 = Inr st2"
    proof (cases "use_api st")
      case True
      then have "same_manifests e1 e2" by (rule m)
      then have "api_phase e2 il ?st1 = api_phase e1 il ?st1" by (rule api_phase_same)
      then show ?thesis using a True by simp
    next
      case False
      then show ?thesis using a by simp
    qed
    have b2: "?b e2 st2 = Inr (st3, c1)"
    proof (cases "use_api st2")
      case True
      then show ?thesis using b by simp
    next
      case False
      then have "batch_phase e1 il st2 = Inr (st3, c1)" using b by simp
      then have "batch_phase e2 il st2 = Inr (st3, c1)" using r1 by (rule batch_phase_same)
      then show ?thesis using False by simp
    qed
    show ?thesis
      unfolding optimized_analyze_packages_unfold[OF g2 False] a2 sum.case b2 prod.case s c ..
  qed
qed

text \<open>
  Claim C8. A run on a new analyzer is a function of the world it runs in; the two runs of
  the claim are runs in two worlds \<open>e1\<close> and \<open>e2\<close>. If the first run returns and the second
  world answers every command the first run issued as the first world did (the installed
  set and the metadata responses are unchanged), then the second run returns the same
  analyzer, hence the same catalog and the same reverse index, after the same commands.
  This holds for \<open>analyze_packages\<close> of brewinfo.py and, for every strategy and batch
  size, for the one of brewinfo\_optimized.py, where the remote strategy also needs the
  two manifests to be unchanged. Nothing else of the world is read.
\<close>

theorem resolution_is_function_of_responses:
  "(analyze_packages e1 new_analyzer = Inr (s, c) \<longrightarrow> same_responses e1 e2 c \<longrightarrow>
      analyze_packages e2 new_analyzer = Inr (s, c))
   \<and> (optimized_analyze_packages e1 (new_optimized api bsize) = Inr (s', c') \<longrightarrow>
      same_responses e1 e2 c' \<longrightarrow> (api \<longrightarrow> same_manifests e1 e2) \<longrightarrow>
      optimized_analyze_packages e2 (new_optimized api bsize) = Inr (s', c'))"
proof (intro conjI impI)
  assume "analyze_packages e1 new_analyzer = Inr (s, c)" and "same_responses e1 e2 c"
  then show "analyze_packages e2 new_analyzer = Inr (s, c)"
    by (rule analyze_packages_same)
next
  assume run: "optimized_analyze_packages e1 (new_optimized api bsize) = Inr (s', c')"
    and r: "same_responses e1 e2 c'" and m: "api \<longrightarrow> same_manifests e1 e2"
  have "same_manifests e1 e2" if "use_api (new_optimized api bsize)"
    using that m by (simp add: new_optimized_def)
  with run r show "optimized_analyze_packages e2 (new_optimized api bsize) = Inr (s', c')"
    by (rule optimized_analyze_packages_same)
qed

theorem resolution_is_function_of_responses_witness:
  "analyze_packages demo_env new_analyzer
     = Inr (\<lparr>packages =
                [(''A'', \<lparr>name = ''A'', description = JStr ''first'', url = JStr [],
                          build_dependencies = [], runtime_dependencies = [''B''],
                          is_cask = False\<rparr>),
                 (''B'', \<lparr>name = ''B'', description = JStr ''No description available'',
                          url = JStr [], build_dependencies = [], runtime_dependencies = [],
                          is_cask = False\<rparr>),
                 (''C'', \<lparr>name = ''C'', description = JStr ''No description available'',
                          url = JStr [], build_dependencies = [], runtime_dependencies = [],
                          is_cask = True\<rparr>)],
              reverse_dependencies = [(''B'', {''A''})],
              installed_packages = {''A'', ''B'', ''C''}\<rparr>,
            [[''list'', ''--formula''], [''list'', ''--cask''], [''info'', ''--json'', ''A''],
             [''info'', ''--json'', ''B''], [''info'', ''--json'', ''--cask'', ''C'']])
   \<and> same_responses demo_env later_env
         [[''list'', ''--formula''], [''list'', ''--cask''], [''info'', ''--json'', ''A''],
          [''info'', ''--json'', ''B''], [''info'', ''--json'', ''--cask'', ''C'']]
   \<and> analyze_packages later_env new_analyzer = analyze_packages demo_env new_analyzer
   \<and> (\<exists>s c. optimized_analyze_packages demo_env (new_optimized True 50) = Inr (s, c)
          \<and> same_responses demo_env later_env c)
   \<and> same_manifests demo_env later_env
   \<and> optimized_analyze_packages later_env (new_optimized True 50)
       = optimized_analyze_packages demo_env (new_optimized True 50)
   \<and> brew later_env [''info'', ''--json'', ''Z''] \<noteq> brew demo_env [''info'', ''--json'', ''Z'']"
proof -
  let ?pk = "[(''A'', \<lparr>name = ''A'', description = JStr ''first'', url = JStr [],
                          build_dependencies = [], runtime_dependencies = [''B''],
                          is_cask = False\<rparr>),
                 (''B'', \<lparr>name = ''B'', description = JStr ''No description available'',
                          url = JStr [], build_dependencies = [], runtime_dependencies = [],
                          is_cask = False\<rparr>),
                 (''C'', \<lparr>name = ''C'', description = JStr ''No description available'',
                          url = JStr [], build_dependencies = [], runtime_dependencies = [],
                          is_cask = True\<rparr>)]"
  let ?S1 = "\<lparr>packages = ?pk, reverse_dependencies = [(''B'', {''A''})],
              installed_packages = {''A'', ''B'', ''C''}\<rparr>"
  let ?S2 = "\<lparr>packages = ?pk, reverse_dependencies = [(''B'', {''A''})],
              installed_packages = {''A'', ''B'', ''C''},
              use_api = False, batch_size = 50, api_cache = None\<rparr>"
  let ?C1 = "[[''list'', ''--formula''], [''list'', ''--cask''], [''info'', ''--json'', ''A''],
             [''info'', ''--json'', ''B''], [''info'', ''--json'', ''--cask'', ''C'']]"
  let ?C2 = "[[''list'', ''--formula''], [''list'', ''--cask''],
             [''info'', ''--json'', ''A'', ''B''], [''info'', ''--json'', ''--cask'', ''C'']]"
  let ?il = "[(''A'', False), (''B'', False), (''C'', True)]"
  have s: "strip [CHR ''A'', CHR 0x0A, CHR ''B'', CHR 0x0A] = [CHR ''A'', CHR 0x0A, CHR ''B'']"
    "strip ''C'' = ''C''" "strip ''ab'' = ''ab''" "strip ''a'' = ''a''" "strip ''b'' = ''b''"
    "strip ''c'' = ''c''"
    by (simp_all add: strip_def is_space_def)
  have il: "get_installed_packages demo_env
      = Inr (?il, [[''list'', ''--formula''], [''list'', ''--cask'']])"
    by (simp add: get_installed_packages_def run_brew_command_def demo_env_def s)
  have p1: "parse_brew_info demo_env ''A'' False
      = Inr (Some \<lparr>name = ''A'', description = JStr ''first'', url = JStr [],
                    build_dependencies = [], runtime_dependencies = [''B''], is_cask = False\<rparr>,
             [[''info'', ''--json'', ''A'']])"
    by (simp add: parse_brew_info_def info_args_def run_brew_command_def demo_env_def s
          formula_info_def get_deps_def dict_get_def)
  have p2: "parse_brew_info demo_env ''B'' False
      = Inr (Some \<lparr>name = ''B'', description = JStr ''No description available'', url = JStr [],
                    build_dependencies = [], runtime_dependencies = [], is_cask = False\<rparr>,
             [[''info'', ''--json'', ''B'']])"
    by (simp add: parse_brew_info_def info_args_def run_brew_command_def demo_env_def s
          formula_info_def get_deps_def dict_get_def)
  have p3: "parse_brew_info demo_env ''C'' True
      = Inr (Some \<lparr>name = ''C'', description = JStr ''No description available'', url = JStr [],
                    build_dependencies = [], runtime_dependencies = [], is_cask = True\<rparr>,
             [[''info'', ''--json'', ''--cask'', ''C'']])"
    by (simp add: parse_brew_info_def info_args_def run_brew_command_def demo_env_def s
          cask_info_def dict_get_def)
  have a1: "analyze_packages demo_env new_analyzer = Inr (?S1, ?C1)"
    unfolding analyze_packages_def il
    by (simp add: new_analyzer_def p1 p2 p3 build_reverse_dependencies_def index_package_def
          add_reverse_def rev_lookup_def)
  have r1: "same_responses demo_env later_env ?C1"
    by (simp add: same_responses_def same_reply_def later_env_def demo_env_def)
  have h3: "api_unavailable demo_env" by (simp add: api_unavailable_def demo_env_def)
  have api: "api_phase demo_env ?il ((new_optimized True 50)\<lparr>installed_packages := {''A'', ''B'', ''C''}\<rparr>)
      = Inr ((new_optimized True 50)\<lparr>installed_packages := {''A'', ''B'', ''C''}, use_api := False\<rparr>)"
    using api_phase_unavailable[OF _ h3, of "(new_optimized True 50)\<lparr>installed_packages := {''A'', ''B'', ''C''}\<rparr>" ?il]
    by (simp add: new_optimized_def)
  have b: "batches 50 ?il = [?il]"
    by (simp add: batches_step batches_Nil)
  have q: "parse_brew_info_batch demo_env ?il
     = Inr ([Some \<lparr>name = ''A'', description = JStr ''first'', url = JStr [],
                    build_dependencies = [], runtime_dependencies = [''B''], is_cask = False\<rparr>,
             Some \<lparr>name = ''B'', description = JStr ''No description available'', url = JStr [],
                    build_dependencies = [], runtime_dependencies = [], is_cask = False\<rparr>,
             Some \<lparr>name = ''C'', description = JStr ''No description available'', url = JStr [],
                    build_dependencies = [], runtime_dependencies = [], is_cask = True\<rparr>],
            [[''info'', ''--json'', ''A'', ''B''], [''info'', ''--json'', ''--cask'', ''C'']])"
    by (simp add: parse_brew_info_batch_def query_batch_def batch_args_def run_brew_command_def
          demo_env_def s dict_by_def formula_info_def get_deps_def
          dict_get_def cask_info_def)
  have bp: "batch_phase demo_env ?il
        ((new_optimized True 50)\<lparr>installed_packages := {''A'', ''B'', ''C''}, use_api := False\<rparr>)
      = Inr (?S2\<lparr>reverse_dependencies := []\<rparr>,
             [[''info'', ''--json'', ''A'', ''B''], [''info'', ''--json'', ''--cask'', ''C'']])"
    by (simp add: batch_phase_def new_optimized_def b q store_def)
  have a2: "optimized_analyze_packages demo_env (new_optimized True 50) = Inr (?S2, ?C2)"
    unfolding optimized_analyze_packages_def il
    by (simp add: new_optimized_def[of True 50, THEN arg_cong, of use_api] api bp
          build_reverse_dependencies_def index_package_def add_reverse_def rev_lookup_def)
  have r2: "same_responses demo_env later_env ?C2"
    by (simp add: same_responses_def same_reply_def later_env_def demo_env_def)
  have m: "same_manifests demo_env later_env"
    by (simp add: same_manifests_def later_env_def)
  note t = resolution_is_function_of_responses[where ?e1.0 = demo_env and ?e2.0 = later_env
      and s = ?S1 and c = ?C1 and api = True and bsize = 50 and s' = ?S2 and c' = ?C2]
  have w1: "analyze_packages later_env new_analyzer = analyze_packages demo_env new_analyzer"
    using t[THEN conjunct1, rule_format, OF a1 r1] a1 by simp
  have w2: "optimized_analyze_packages later_env (new_optimized True 50)
       = optimized_analyze_packages demo_env (new_optimized True 50)"
    using t[THEN conjunct2, rule_format, OF a2 r2 m] a2 by simp
  have e: "\<exists>s c. optimized_analyze_packages demo_env (new_optimized True 50) = Inr (s, c)
          \<and> same_responses demo_env later_env c"
    using a2 r2 by blast
  have d: "brew later_env [''info'', ''--json'', ''Z''] \<noteq> brew demo_env [''info'', ''--json'', ''Z'']"
    by (simp add: later_env_def demo_env_def)
  show ?thesis
    by (intro conjI) (rule a1, rule r1, rule w1, rule e, rule m, rule w2, rule d)
qed

section \<open>Fatal errors of brewinfo.py\<close>























section \<open>One name, two kinds\<close>

lemma fold_store_snoc: "fold store (items @ [x]) pk = store x (fold store items pk)"
  by simp

lemma fold_store_kept:
  assumes "((n, ic), Some info) \<in> set items"
  shows "\<exists>p info'. (p, Some info') \<in> set items \<and> fst p = n \<and>
           map_of (fold store items pk) n = Some info'"
  using assms
proof (induction items rule: rev_induct)
  case Nil
  then show ?case by simp
next
  case (snoc x items)
  obtain p r where x: "x = (p, r)" by (cases x)
  show ?case
  proof (cases "fst p = n \<and> r \<noteq> None")
    case True
    then obtain i where r: "r = Some i" by auto
    have "map_of (fold store (items @ [x]) pk) n = Some i"
      unfolding fold_store_snoc x r using True by (simp add: store_lookup)
    then show ?thesis unfolding x r using True
      by (intro exI[of _ p] exI[of _ i]) simp
  next
    case False
    then have "x \<noteq> ((n, ic), Some info)" using x by auto
    then have "((n, ic), Some info) \<in> set items" using snoc.prems by simp
    then obtain p' info' where m: "(p', Some info') \<in> set items" and f: "fst p' = n"
      and l: "map_of (fold store items pk) n = Some info'"
      using snoc.IH by blast
    have "map_of (fold store (items @ [x]) pk) n = map_of (fold store items pk) n"
      unfolding fold_store_snoc x using False by (cases r) (auto simp: store_lookup)
    then have "map_of (fold store (items @ [x]) pk) n = Some info'" using l by simp
    moreover have "(p', Some info') \<in> set (items @ [x])" using m by simp
    ultimately show ?thesis using f by blast
  qed
qed

lemma distinct_store: "distinct (map fst pk) \<Longrightarrow> distinct (map fst (store x pk))"
  unfolding store_def by (cases "snd x") (simp_all add: distinct_update)

lemma distinct_fold_store:
  "distinct (map fst pk) \<Longrightarrow> distinct (map fst (fold store items pk))"
  by (induction items arbitrary: pk) (simp_all add: distinct_store)

lemma cask_item_kept:
  assumes il: "map fst items = enumeration fs cs"
    and m: "((n, True), Some info) \<in> set items"
  shows "\<exists>info'. ((n, True), Some info') \<in> set items \<and>
           map_of (fold store items pk) n = Some info'"
proof -
  let ?k = "length fs"
  let ?F = "take ?k items" and ?C = "drop ?k items"
  have fF: "map fst ?F = map (\<lambda>pkg. (pkg, False)) fs"
    using arg_cong[OF il, of "take ?k"] by (simp add: take_map enumeration_def)
  have fC: "map fst ?C = map (\<lambda>cask. (cask, True)) cs"
    using arg_cong[OF il, of "drop ?k"] by (simp add: drop_map enumeration_def)
  have notF: "((n, True), Some info) \<notin> set ?F"
  proof
    assume "((n, True), Some info) \<in> set ?F"
    then have "(n, True) \<in> set (map fst ?F)" by force
    then show False unfolding fF by auto
  qed
  have "set items = set ?F \<union> set ?C"
    using set_append[of ?F ?C] by simp
  then have inC: "((n, True), Some info) \<in> set ?C" using m notF by blast
  have split: "fold store items pk = fold store ?C (fold store ?F pk)"
    using fold_append[of store ?F ?C] by simp
  obtain p info' where m': "(p, Some info') \<in> set ?C" and f: "fst p = n"
    and l: "map_of (fold store ?C (fold store ?F pk)) n = Some info'"
    using fold_store_kept[OF inC] by blast
  have "p \<in> set (map fst ?C)" using m' by force
  then have "snd p" unfolding fC by auto
  then have p: "p = (n, True)" using f by (cases p) simp
  have "((n, True), Some info') \<in> set items"
    using m' p in_set_dropD by fastforce
  then show ?thesis using l split by auto
qed

lemma parse_brew_info_batch_length:
  "parse_brew_info_batch e b = Inr (rs, c) \<Longrightarrow> length rs = length b"
  using list_all2_lengthD[OF parse_brew_info_batch_answers, of e b rs c]
  by (simp add: length_result_slots)

lemma run_batches_items:
  "run_batches e bs pk = Inr (pk', c) \<Longrightarrow>
     pk' = fold store (batch_items e bs) pk \<and> map fst (batch_items e bs) = concat bs"
proof (induction bs arbitrary: pk pk' c)
  case Nil
  then show ?case by (simp add: batch_items_def)
next
  case (Cons b bs)
  from Cons.prems obtain rs c1 pk2 c2 where
    q: "parse_brew_info_batch e b = Inr (rs, c1)" and
    r: "run_batches e bs (fold store (zip b rs) pk) = Inr (pk2, c2)" and
    pk': "pk' = pk2"
    by (auto split: sum.splits)
  have len: "length rs = length b" by (rule parse_brew_info_batch_length[OF q])
  have items: "batch_items e (b # bs) = zip b rs @ batch_items e bs"
    by (simp add: batch_items_def q)
  from Cons.IH[OF r] have
    "pk2 = fold store (batch_items e bs) (fold store (zip b rs) pk)"
    "map fst (batch_items e bs) = concat bs" by simp_all
  then show ?case unfolding items pk' using len by simp
qed

lemma batch_items_answers:
  assumes "\<forall>b \<in> set bs. formulas_first b" and "item \<in> set (batch_items e bs)"
  shows "answers (fst item) (snd item)"
proof -
  from assms(2) obtain b where b: "b \<in> set bs"
    and m0: "item \<in> set (case parse_brew_info_batch e b of
                           Inl x \<Rightarrow> [] | Inr (rs, c) \<Rightarrow> zip b rs)"
    unfolding batch_items_def by auto
  obtain rs c where q: "parse_brew_info_batch e b = Inr (rs, c)"
    using m0 by (cases "parse_brew_info_batch e b") auto
  have m: "item \<in> set (zip b rs)" using m0 unfolding q by simp
  have "formulas_first b" using assms(1) b by simp
  then have "result_slots b = b" by (simp add: result_slots_fixed_iff)
  then have "list_all2 answers b rs"
    using parse_brew_info_batch_answers[OF q] by simp
  then show ?thesis using m by (cases item) (auto simp: list_all2_iff)
qed

lemma resolve_api_items:
  "resolve_api il formulas casks pk = Inr pk' \<Longrightarrow>
     pk' = fold store (api_items il formulas casks) pk"
proof (induction il arbitrary: pk)
  case Nil
  then show ?case by (simp add: api_items_def)
next
  case (Cons p il)
  obtain n ic where p: "p = (n, ic)" by (cases p)
  from Cons.prems obtain r where
    q: "parse_api_data n ic formulas casks = Inr r" and
    rest: "resolve_api il formulas casks
             (case r of None \<Rightarrow> pk | Some info \<Rightarrow> AList.update n info pk) = Inr pk'"
    unfolding p by (auto split: sum.splits)
  have "(case r of None \<Rightarrow> pk | Some info \<Rightarrow> AList.update n info pk) = store ((n, ic), r) pk"
    by (cases r) (simp_all add: store_def)
  then have "pk' = fold store (api_items il formulas casks) (store ((n, ic), r) pk)"
    using Cons.IH rest by simp
  then show ?case unfolding p by (simp add: api_items_def q)
qed

lemma api_items_fst: "map fst (api_items il formulas casks) = il"
  by (simp add: api_items_def comp_def)

lemma single_both_kinds:
  assumes "get_installed_packages e = Inr (il, c0)"
    and "(n, False) \<in> set il" and "(n, True) \<in> set il"
    and "distinct (map fst (packages st))"
    and "analyze_packages e st = Inr (st', c)"
  shows "info_args n False \<in> set c \<and> info_args n True \<in> set c
       \<and> info_args n False \<noteq> info_args n True
       \<and> distinct (map fst (packages st'))
       \<and> (\<forall>info c1. parse_brew_info e n True = Inr (Some info, c1)
             \<longrightarrow> map_of (packages st') n = Some info \<and> is_cask info)"
proof -
  have ne: "il \<noteq> []" using assms(2) by auto
  note res = analyze_packages_result[OF assms(5) assms(1) ne]
  have "info_args n False \<in> (\<lambda>p. info_args (fst p) (snd p)) ` set il"
    using assms(2) by (rule rev_image_eqI) simp
  moreover have "info_args n True \<in> (\<lambda>p. info_args (fst p) (snd p)) ` set il"
    using assms(3) by (rule rev_image_eqI) simp
  ultimately have calls: "info_args n False \<in> set c \<and> info_args n True \<in> set c"
    unfolding res(2) by simp
  have diff: "info_args n False \<noteq> info_args n True"
    by (simp add: info_args_def)
  have dist: "distinct (map fst (packages st'))"
    unfolding res(1) using assms(4) by (rule distinct_fold_put)
  have kept: "map_of (packages st') n = Some info \<and> is_cask info"
    if q: "parse_brew_info e n True = Inr (Some info, c1)" for info c1
  proof -
    obtain fs cs where il: "il = enumeration fs cs"
      using get_installed_packages_enumeration(1)[OF assms(1)] by blast
    let ?F = "map (\<lambda>pkg. (pkg, False)) fs" and ?C = "map (\<lambda>cask. (cask, True)) cs"
    have ups: "single_updates e il = single_updates e ?F @ single_updates e ?C"
      unfolding il enumeration_def by (rule single_updates_append)
    have inC: "(n, True) \<in> set ?C" using assms(3) unfolding il enumeration_def by auto
    have mem: "(n, info) \<in> set (single_updates e ?C)"
      unfolding single_updates_member using inC q by blast
    have uniq: "\<forall>v'. (n, v') \<in> set (single_updates e ?C) \<longrightarrow> v' = info"
    proof (intro allI impI)
      fix v' assume "(n, v') \<in> set (single_updates e ?C)"
      then obtain ic c' where m: "(n, ic) \<in> set ?C" and p: "parse_brew_info e n ic = Inr (Some v', c')"
        unfolding single_updates_member by blast
      have "ic = True" using m by auto
      then show "v' = info" using p q by simp
    qed
    have "map_of (rev (single_updates e ?C)) n = Some info"
    proof (rule map_of_unique)
      show "(n, info) \<in> set (rev (single_updates e ?C))" using mem by simp
      show "\<forall>v'. (n, v') \<in> set (rev (single_updates e ?C)) \<longrightarrow> v' = info" using uniq by simp
    qed
    then have "map_of (packages st') n = Some info"
      unfolding res(1) map_of_fold_put ups by (simp add: map_add_def)
    moreover have "is_cask info"
      using parse_brew_info_Some[OF q] package_info_cask by blast
    ultimately show ?thesis by simp
  qed
  show ?thesis using calls diff dist kept by blast
qed

lemma fetch_api_data_state:
  assumes "fetch_api_data e st = Inr ((fo, ca), st')" and "fo \<noteq> [] \<or> ca \<noteq> []"
  shows "api_cache st' = Some (fo, ca) \<and> packages st' = packages st"
  using assms unfolding fetch_api_data_def
  by (auto split: option.splits sum.splits)

lemma batch_run:
  assumes g: "get_installed_packages e = Inr (il, c0)" and ne: "il \<noteq> []"
    and nu: "\<not> use_api sb" and pos: "0 < batch_size sb"
    and run: "optimized_analyze_packages e sb = Inr (sb', c')"
  shows "\<exists>c1. run_batches e (batches (nat (batch_size sb)) il) (packages sb)
                 = Inr (packages sb', c1) \<and> c' = c0 @ c1"
proof -
  let ?st1 = "sb\<lparr>installed_packages := set (map fst il)\<rparr>"
  have run1: "(case batch_phase e il ?st1 of
                 Inl x \<Rightarrow> Inl x
               | Inr (st3, c1) \<Rightarrow> Inr (build_reverse_dependencies st3, c0 @ c1))
              = Inr (sb', c')"
    using run nu unfolding optimized_analyze_packages_unfold[OF g ne] by simp
  then obtain st3 c1 where b: "batch_phase e il ?st1 = Inr (st3, c1)"
    by (cases "batch_phase e il ?st1") auto
  have sb': "sb' = build_reverse_dependencies st3" and c': "c' = c0 @ c1"
    using run1 unfolding b by simp_all
  obtain pk where r: "run_batches e (batches (nat (batch_size sb)) il) (packages sb) = Inr (pk, c1)"
    and st3: "st3 = ?st1\<lparr>packages := pk\<rparr>"
    using b pos by (auto simp: batch_phase_def split: sum.splits)
  have "packages sb' = pk" unfolding sb' st3 by (simp add: build_reverse_dependencies_def)
  then show ?thesis using r c' by simp
qed

lemma api_run:
  assumes g: "get_installed_packages e = Inr (il, c0)" and ne: "il \<noteq> []"
    and run: "optimized_analyze_packages e sa = Inr (sa', c')"
    and u: "use_api sa'" and cache: "api_cache sa' = Some (fo, ca)"
  shows "resolve_api il fo ca (packages sa) = Inr (packages sa') \<and> c' = c0"
proof -
  let ?st1 = "sa\<lparr>installed_packages := set (map fst il)\<rparr>"
  let ?a = "if use_api sa then api_phase e il ?st1 else Inr ?st1"
  let ?b = "\<lambda>st2. if \<not> use_api st2 then batch_phase e il st2 else Inr (st2, [])"
  note run1 = run[unfolded optimized_analyze_packages_unfold[OF g ne]]
  obtain st2 where a: "?a = Inr st2" using run1 by (cases ?a) simp_all
  note run2 = run1[unfolded a sum.case]
  obtain st3 c1 where b: "?b st2 = Inr (st3, c1)" using run2 by (cases "?b st2") auto
  have sa': "sa' = build_reverse_dependencies st3" and c': "c' = c0 @ c1"
    using run2 unfolding b by simp_all
  have u3: "use_api st3" using u unfolding sa' by (simp add: build_reverse_dependencies_def)
  have u2: "use_api st2"
  proof (rule ccontr)
    assume n: "\<not> use_api st2"
    then have "batch_phase e il st2 = Inr (st3, c1)" using b by simp
    then have "use_api st3 = use_api st2" by (rule batch_phase_use_api)
    then show False using u3 n by simp
  qed
  have st3: "st3 = st2" and c1: "c1 = []" using b u2 by simp_all
  have ua: "use_api sa"
  proof (rule ccontr)
    assume "\<not> use_api sa"
    then have "st2 = ?st1" using a by simp
    then show False using u2 \<open>\<not> use_api sa\<close> by simp
  qed
  have ap: "api_phase e il ?st1 = Inr st2" using a ua by simp
  obtain fo' ca' st' where f: "fetch_api_data e ?st1 = Inr ((fo', ca'), st')"
    using ap unfolding api_phase_def
    by (cases "fetch_api_data e ?st1") (auto split: prod.splits)
  have nonempty: "fo' \<noteq> [] \<or> ca' \<noteq> []"
  proof (rule ccontr)
    assume "\<not> ?thesis"
    then have "st2 = st'\<lparr>use_api := False\<rparr>" using ap unfolding api_phase_def f by simp
    then show False using u2 by simp
  qed
  obtain pk where r: "resolve_api il fo' ca' (packages st') = Inr pk"
    and st2: "st2 = st'\<lparr>packages := pk\<rparr>"
    using ap nonempty unfolding api_phase_def f by (auto split: sum.splits)
  note fs = fetch_api_data_state[OF f nonempty]
  have "api_cache sa' = Some (fo', ca')"
    unfolding sa' st3 st2 using fs by (simp add: build_reverse_dependencies_def)
  then have eq: "fo' = fo" "ca' = ca" using cache by simp_all
  have "packages sa' = pk"
    unfolding sa' st3 st2 by (simp add: build_reverse_dependencies_def)
  then show ?thesis using r fs c' c1 unfolding eq by simp
qed

lemma batch_both_kinds:
  assumes g: "get_installed_packages e = Inr (il, c0)"
    and f: "(n, False) \<in> set il" and k: "(n, True) \<in> set il"
    and d: "distinct (map fst (packages sb))" and nu: "\<not> use_api sb"
    and pos: "0 < batch_size sb"
    and run: "optimized_analyze_packages e sb = Inr (sb', cb)"
  shows "(\<exists>ns. n \<in> set ns \<and> batch_args False ns \<in> set cb)
       \<and> (\<exists>ks. n \<in> set ks \<and> batch_args True ks \<in> set cb)
       \<and> distinct (map fst (packages sb'))
       \<and> (\<forall>info. ((n, True), Some info)
                    \<in> set (batch_items e (batches (nat (batch_size sb)) il)) \<longrightarrow>
            (\<exists>info'. ((n, True), Some info')
                        \<in> set (batch_items e (batches (nat (batch_size sb)) il))
               \<and> map_of (packages sb') n = Some info' \<and> is_cask info'))"
proof -
  let ?bs = "batches (nat (batch_size sb)) il"
  define Q where "Q = concat (map batch_queries ?bs)"
  have ne: "il \<noteq> []" using f by auto
  have B: "0 < nat (batch_size sb)" using pos by simp
  obtain c1 where r: "run_batches e ?bs (packages sb) = Inr (packages sb', c1)"
    and cb: "cb = c0 @ c1"
    using batch_run[OF g ne nu pos run] by blast
  have c1: "c1 = map (\<lambda>q. batch_args (fst q) (snd q)) Q"
    unfolding Q_def by (rule run_batches_calls[OF r])
  have cat: "concat ?bs = il" by (rule concat_batches[OF B])
  have "n \<in> set (map fst (filter (\<lambda>pkg. \<not> snd pkg) (concat ?bs)))"
    unfolding cat using f by force
  then have "n \<in> set (concat (map snd (filter (\<lambda>q. \<not> fst q) Q)))"
    unfolding Q_def formula_names_of_queries .
  then obtain q where q: "q \<in> set Q" "\<not> fst q" "n \<in> set (snd q)" by auto
  have "batch_args (fst q) (snd q) \<in> set c1" unfolding c1 using q(1) by simp
  then have "batch_args False (snd q) \<in> set cb" using q(2) unfolding cb by simp
  then have q1: "\<exists>ns. n \<in> set ns \<and> batch_args False ns \<in> set cb"
    using q(3) by blast
  have "n \<in> set (map fst (filter (\<lambda>pkg. snd pkg) (concat ?bs)))"
    unfolding cat using k by force
  then have "n \<in> set (concat (map snd (filter (\<lambda>q. fst q) Q)))"
    unfolding Q_def cask_names_of_queries .
  then obtain q' where q': "q' \<in> set Q" "fst q'" "n \<in> set (snd q')" by auto
  have "batch_args (fst q') (snd q') \<in> set c1" unfolding c1 using q'(1) by simp
  then have "batch_args True (snd q') \<in> set cb" using q'(2) unfolding cb by simp
  then have q2: "\<exists>ks. n \<in> set ks \<and> batch_args True ks \<in> set cb"
    using q'(3) by blast
  note items = run_batches_items[OF r]
  have dist: "distinct (map fst (packages sb'))"
    using items d by (simp add: distinct_fold_store)
  obtain fs cs where il: "il = enumeration fs cs"
    using get_installed_packages_enumeration(1)[OF g] by blast
  have ff: "\<forall>b \<in> set ?bs. formulas_first b"
    unfolding il using formulas_first_batches[OF formulas_first_enumeration] by blast
  have kept: "\<exists>info'. ((n, True), Some info') \<in> set (batch_items e ?bs)
               \<and> map_of (packages sb') n = Some info' \<and> is_cask info'"
    if m: "((n, True), Some info) \<in> set (batch_items e ?bs)" for info
  proof -
    have "map fst (batch_items e ?bs) = enumeration fs cs"
      using items cat il by simp
    from cask_item_kept[OF this m, of "packages sb"]
    obtain info' where m': "((n, True), Some info') \<in> set (batch_items e ?bs)"
      and l: "map_of (packages sb') n = Some info'"
      using items by auto
    have "answers (n, True) (Some info')"
      using batch_items_answers[OF ff m'] by simp
    then have "is_cask info'" by (simp add: answers_simps)
    then show ?thesis using m' l by blast
  qed
  show ?thesis using q1 q2 dist kept by blast
qed

lemma api_both_kinds:
  assumes g: "get_installed_packages e = Inr (il, c0)"
    and k: "(n, True) \<in> set il"
    and d: "distinct (map fst (packages sa))"
    and run: "optimized_analyze_packages e sa = Inr (sa', ca')"
    and u: "use_api sa'" and cache: "api_cache sa' = Some (fo, ca)"
  shows "ca' = c0 \<and> distinct (map fst (packages sa'))
       \<and> (\<forall>info. parse_api_data n True fo ca = Inr (Some info) \<longrightarrow>
            map_of (packages sa') n = Some info \<and> is_cask info)"
proof -
  have ne: "il \<noteq> []" using k by auto
  have r: "resolve_api il fo ca (packages sa) = Inr (packages sa')" and c: "ca' = c0"
    using api_run[OF g ne run u cache] by simp_all
  note items = resolve_api_items[OF r]
  have dist: "distinct (map fst (packages sa'))"
    using items d by (simp add: distinct_fold_store)
  obtain fs cs where il: "il = enumeration fs cs"
    using get_installed_packages_enumeration(1)[OF g] by blast
  have kept: "map_of (packages sa') n = Some info \<and> is_cask info"
    if q: "parse_api_data n True fo ca = Inr (Some info)" for info
  proof -
    have m: "((n, True), Some info) \<in> set (api_items il fo ca)"
      unfolding api_items_def using k q by force
    have "map fst (api_items il fo ca) = enumeration fs cs"
      using api_items_fst il by simp
    from cask_item_kept[OF this m, of "packages sa"]
    obtain info' where m': "((n, True), Some info') \<in> set (api_items il fo ca)"
      and l: "map_of (packages sa') n = Some info'"
      using items by auto
    have "info' = info" using m' q unfolding api_items_def by auto
    moreover have "is_cask info"
      using parse_api_data_Some[OF q] package_info_cask by blast
    ultimately show ?thesis using l by simp
  qed
  show ?thesis using c dist kept by blast
qed

lemma strip_twin: "strip ''x'' = ''x''" "strip ''f'' = ''f''" "strip ''k'' = ''k''"
  by (simp_all add: strip_def is_space_def)

lemma twin_installed:
  "get_installed_packages twin_env = Inr ([(''x'', False), (''x'', True)], [[''list'', ''--formula''], [''list'', ''--cask'']])"
  by (simp add: get_installed_packages_def run_brew_command_def twin_env_def strip_twin)

lemma twin_cask_query:
  "parse_brew_info twin_env ''x'' True
     = Inr (Some \<lparr>name = ''x'', description = JStr ''the cask'', url = JStr [],
         build_dependencies = [], runtime_dependencies = [], is_cask = True\<rparr>, [[''info'', ''--json'', ''--cask'', ''x'']])"
  by (simp add: parse_brew_info_def info_args_def run_brew_command_def twin_env_def strip_twin
        cask_info_def dict_get_def)

lemma twin_single_run:
  "analyze_packages twin_env new_analyzer
     = Inr (\<lparr>packages = [(''x'', \<lparr>name = ''x'', description = JStr ''the cask'', url = JStr [],
         build_dependencies = [], runtime_dependencies = [], is_cask = True\<rparr>)], reverse_dependencies = [], installed_packages = {''x''}\<rparr>,
            [[''list'', ''--formula''], [''list'', ''--cask''], [''info'', ''--json'', ''x''], [''info'', ''--json'', ''--cask'', ''x'']])"
proof -
  have f: "parse_brew_info twin_env ''x'' False
      = Inr (Some \<lparr>name = ''x'', description = JStr ''the formula'', url = JStr [],
         build_dependencies = [], runtime_dependencies = [], is_cask = False\<rparr>, [[''info'', ''--json'', ''x'']])"
    by (simp add: parse_brew_info_def info_args_def run_brew_command_def twin_env_def strip_twin
          formula_info_def get_deps_def dict_get_def)
  show ?thesis
    by (simp add: analyze_packages_def twin_installed f twin_cask_query new_analyzer_def
          build_reverse_dependencies_def index_package_def)
qed

lemma twin_batch_results:
  "parse_brew_info_batch twin_env [(''x'', False), (''x'', True)]
     = Inr ([Some \<lparr>name = ''x'', description = JStr ''the formula'', url = JStr [],
         build_dependencies = [], runtime_dependencies = [], is_cask = False\<rparr>,
             Some \<lparr>name = ''x'', description = JStr ''the cask'', url = JStr [],
         build_dependencies = [], runtime_dependencies = [], is_cask = True\<rparr>],
            [[''info'', ''--json'', ''x''], [''info'', ''--json'', ''--cask'', ''x'']])"
  by (simp add: parse_brew_info_batch_def query_batch_def batch_args_def run_brew_command_def
        twin_env_def strip_twin dict_by_def formula_info_def get_deps_def dict_get_def
        cask_info_def Let_def)

lemma twin_batches: "batches 50 [(''x'', False), (''x'', True)] = [[(''x'', False), (''x'', True)]]"
  by (simp add: batches_step batches_Nil)

lemma twin_batch_run:
  "optimized_analyze_packages twin_env (new_optimized False 50)
     = Inr (\<lparr>packages = [(''x'', \<lparr>name = ''x'', description = JStr ''the cask'', url = JStr [],
         build_dependencies = [], runtime_dependencies = [], is_cask = True\<rparr>)], reverse_dependencies = [], installed_packages = {''x''}, use_api = False, batch_size = 50, api_cache = None\<rparr>,
            [[''list'', ''--formula''], [''list'', ''--cask''], [''info'', ''--json'', ''x''], [''info'', ''--json'', ''--cask'', ''x'']])"
proof -
  have bp: "batch_phase twin_env [(''x'', False), (''x'', True)] ((new_optimized False 50)\<lparr>installed_packages := {''x''}\<rparr>)
      = Inr (\<lparr>packages = [(''x'', \<lparr>name = ''x'', description = JStr ''the cask'', url = JStr [],
         build_dependencies = [], runtime_dependencies = [], is_cask = True\<rparr>)], reverse_dependencies = [], installed_packages = {''x''}, use_api = False, batch_size = 50, api_cache = None\<rparr>,
             [[''info'', ''--json'', ''x''], [''info'', ''--json'', ''--cask'', ''x'']])"
    by (simp add: batch_phase_def new_optimized_def twin_batches twin_batch_results store_def)
  show ?thesis
    unfolding optimized_analyze_packages_def twin_installed
    by (simp add: new_optimized_def[of False 50, THEN arg_cong, of use_api] bp
          build_reverse_dependencies_def index_package_def)
qed

lemma twin_api_installed:
  "get_installed_packages twin_api_env = Inr ([(''x'', False), (''x'', True)], [[''list'', ''--formula''], [''list'', ''--cask'']])"
  by (simp add: get_installed_packages_def run_brew_command_def twin_api_env_def twin_env_def
        strip_twin)

lemma twin_api_cask:
  "parse_api_data ''x'' True [(JStr ''x'', JObj [(''name'', JStr ''x''), (''desc'', JStr ''the formula'')])]
       [(JStr ''x'', JObj [(''token'', JStr ''x''), (''desc'', JStr ''the cask'')])] = Inr (Some \<lparr>name = ''x'', description = JStr ''the cask'', url = JStr [],
         build_dependencies = [], runtime_dependencies = [], is_cask = True\<rparr>)"
  by (simp add: parse_api_data_def cask_info_def dict_get_def)

lemma twin_api_run:
  "optimized_analyze_packages twin_api_env (new_optimized True 50)
     = Inr (\<lparr>packages = [(''x'', \<lparr>name = ''x'', description = JStr ''the cask'', url = JStr [],
         build_dependencies = [], runtime_dependencies = [], is_cask = True\<rparr>)], reverse_dependencies = [], installed_packages = {''x''}, use_api = True, batch_size = 50, api_cache = Some ([(JStr ''x'', JObj [(''name'', JStr ''x''), (''desc'', JStr ''the formula'')])], [(JStr ''x'', JObj [(''token'', JStr ''x''), (''desc'', JStr ''the cask'')])])\<rparr>,
            [[''list'', ''--formula''], [''list'', ''--cask'']])"
proof -
  have fe: "fetch_api_data twin_api_env ((new_optimized True 50)\<lparr>installed_packages := {''x''}\<rparr>)
      = Inr (([(JStr ''x'', JObj [(''name'', JStr ''x''), (''desc'', JStr ''the formula'')])],
              [(JStr ''x'', JObj [(''token'', JStr ''x''), (''desc'', JStr ''the cask'')])]),
             (new_optimized True 50)\<lparr>installed_packages := {''x''},
                api_cache := Some ([(JStr ''x'', JObj [(''name'', JStr ''x''), (''desc'', JStr ''the formula'')])],
                                   [(JStr ''x'', JObj [(''token'', JStr ''x''), (''desc'', JStr ''the cask'')])])\<rparr>)"
    by (simp add: fetch_api_data_def new_optimized_def twin_api_env_def formula_url_def
          cask_url_def dict_by_def)
  have f: "parse_api_data ''x'' False [(JStr ''x'', JObj [(''name'', JStr ''x''), (''desc'', JStr ''the formula'')])]
       [(JStr ''x'', JObj [(''token'', JStr ''x''), (''desc'', JStr ''the cask'')])] = Inr (Some \<lparr>name = ''x'', description = JStr ''the formula'', url = JStr [],
         build_dependencies = [], runtime_dependencies = [], is_cask = False\<rparr>)"
    by (simp add: parse_api_data_def formula_info_def get_deps_def dict_get_def)
  have ap: "api_phase twin_api_env [(''x'', False), (''x'', True)] ((new_optimized True 50)\<lparr>installed_packages := {''x''}\<rparr>)
      = Inr (\<lparr>packages = [(''x'', \<lparr>name = ''x'', description = JStr ''the cask'', url = JStr [],
         build_dependencies = [], runtime_dependencies = [], is_cask = True\<rparr>)], reverse_dependencies = [], installed_packages = {''x''}, use_api = True, batch_size = 50, api_cache = Some ([(JStr ''x'', JObj [(''name'', JStr ''x''), (''desc'', JStr ''the formula'')])], [(JStr ''x'', JObj [(''token'', JStr ''x''), (''desc'', JStr ''the cask'')])])\<rparr>)"
    unfolding api_phase_def fe
    by (simp add: f twin_api_cask new_optimized_def)
  show ?thesis
    unfolding optimized_analyze_packages_def twin_api_installed
    by (simp add: new_optimized_def[of True 50, THEN arg_cong, of use_api] ap
          build_reverse_dependencies_def index_package_def)
qed

text \<open>
  Claim C5, as stated, fails: when x is installed as a formula and as a cask and both
  queries answer, the catalog holds one record for x, the cask's; the formula's record
  has been replaced. This is so with one query per package and with batched queries.
\<close>

theorem same_name_both_kinds_counterexample:
  "analyze_packages twin_env new_analyzer
     = Inr (\<lparr>packages = [(''x'', \<lparr>name = ''x'', description = JStr ''the cask'', url = JStr [],
         build_dependencies = [], runtime_dependencies = [], is_cask = True\<rparr>)], reverse_dependencies = [], installed_packages = {''x''}\<rparr>,
            [[''list'', ''--formula''], [''list'', ''--cask''], [''info'', ''--json'', ''x''], [''info'', ''--json'', ''--cask'', ''x'']])
   \<and> optimized_analyze_packages twin_env (new_optimized False 50)
     = Inr (\<lparr>packages = [(''x'', \<lparr>name = ''x'', description = JStr ''the cask'', url = JStr [],
         build_dependencies = [], runtime_dependencies = [], is_cask = True\<rparr>)], reverse_dependencies = [], installed_packages = {''x''}, use_api = False, batch_size = 50, api_cache = None\<rparr>,
            [[''list'', ''--formula''], [''list'', ''--cask''], [''info'', ''--json'', ''x''], [''info'', ''--json'', ''--cask'', ''x'']])"
  by (intro conjI) (rule twin_single_run, rule twin_batch_run)

text \<open>
  Claim C5, amended. Let the same name be reported both as a formula and as a cask. A run
  that returns has queried the two identities separately, each with its own kind (one
  query each in brewinfo.py; a formula query and a cask query that hold the name in the
  batch loop; two look-ups in the two manifests, after the enumeration alone, with the
  remote strategy). The catalog is keyed by the name alone, so it holds at most one record
  for the name, and when a record is found for the cask, the record kept is a cask's: the
  record of the cask's query in brewinfo.py, a record the batch loop paired with the cask,
  the record of the cask manifest with the remote strategy.
\<close>

theorem same_name_both_kinds_keep_one_record:
  assumes "get_installed_packages e = Inr (il, c0)"
    and "(n, False) \<in> set il" and "(n, True) \<in> set il"
  shows "(distinct (map fst (packages st)) \<longrightarrow> analyze_packages e st = Inr (st', c) \<longrightarrow>
            info_args n False \<in> set c \<and> info_args n True \<in> set c
            \<and> info_args n False \<noteq> info_args n True
            \<and> distinct (map fst (packages st'))
            \<and> (\<forall>info c1. parse_brew_info e n True = Inr (Some info, c1)
                  \<longrightarrow> map_of (packages st') n = Some info \<and> is_cask info))
       \<and> (distinct (map fst (packages sb)) \<longrightarrow> \<not> use_api sb \<longrightarrow> 0 < batch_size sb \<longrightarrow>
          optimized_analyze_packages e sb = Inr (sb', cb) \<longrightarrow>
            (\<exists>ns. n \<in> set ns \<and> batch_args False ns \<in> set cb)
            \<and> (\<exists>ks. n \<in> set ks \<and> batch_args True ks \<in> set cb)
            \<and> distinct (map fst (packages sb'))
            \<and> (\<forall>info. ((n, True), Some info)
                         \<in> set (batch_items e (batches (nat (batch_size sb)) il)) \<longrightarrow>
                 (\<exists>info'. ((n, True), Some info')
                             \<in> set (batch_items e (batches (nat (batch_size sb)) il))
                    \<and> map_of (packages sb') n = Some info' \<and> is_cask info')))
       \<and> (distinct (map fst (packages sa)) \<longrightarrow>
          optimized_analyze_packages e sa = Inr (sa', ca') \<longrightarrow>
          use_api sa' \<longrightarrow> api_cache sa' = Some (fo, ca) \<longrightarrow>
            ca' = c0 \<and> distinct (map fst (packages sa'))
            \<and> (\<forall>info. parse_api_data n True fo ca = Inr (Some info) \<longrightarrow>
                 map_of (packages sa') n = Some info \<and> is_cask info))"
proof (intro conjI)
  show "distinct (map fst (packages st)) \<longrightarrow> analyze_packages e st = Inr (st', c) \<longrightarrow>
            info_args n False \<in> set c \<and> info_args n True \<in> set c
            \<and> info_args n False \<noteq> info_args n True
            \<and> distinct (map fst (packages st'))
            \<and> (\<forall>info c1. parse_brew_info e n True = Inr (Some info, c1)
                  \<longrightarrow> map_of (packages st') n = Some info \<and> is_cask info)"
  proof (intro impI)
    assume d: "distinct (map fst (packages st))" and run: "analyze_packages e st = Inr (st', c)"
    show "info_args n False \<in> set c \<and> info_args n True \<in> set c
            \<and> info_args n False \<noteq> info_args n True
            \<and> distinct (map fst (packages st'))
            \<and> (\<forall>info c1. parse_brew_info e n True = Inr (Some info, c1)
                  \<longrightarrow> map_of (packages st') n = Some info \<and> is_cask info)"
      by (rule single_both_kinds[OF assms d run])
  qed
  show "distinct (map fst (packages sb)) \<longrightarrow> \<not> use_api sb \<longrightarrow> 0 < batch_size sb \<longrightarrow>
          optimized_analyze_packages e sb = Inr (sb', cb) \<longrightarrow>
            (\<exists>ns. n \<in> set ns \<and> batch_args False ns \<in> set cb)
            \<and> (\<exists>ks. n \<in> set ks \<and> batch_args True ks \<in> set cb)
            \<and> distinct (map fst (packages sb'))
            \<and> (\<forall>info. ((n, True), Some info)
                         \<in> set (batch_items e (batches (nat (batch_size sb)) il)) \<longrightarrow>
                 (\<exists>info'. ((n, True), Some info')
                             \<in> set (batch_items e (batches (nat (batch_size sb)) il))
                    \<and> map_of (packages sb') n = Some info' \<and> is_cask info'))"
  proof (intro impI)
    assume d: "distinct (map fst (packages sb))" and nu: "\<not> use_api sb"
      and pos: "0 < batch_size sb"
      and run: "optimized_analyze_packages e sb = Inr (sb', cb)"
    show "(\<exists>ns. n \<in> set ns \<and> batch_args False ns \<in> set cb)
            \<and> (\<exists>ks. n \<in> set ks \<and> batch_args True ks \<in> set cb)
            \<and> distinct (map fst (packages sb'))
            \<and> (\<forall>info. ((n, True), Some info)
                         \<in> set (batch_items e (batches (nat (batch_size sb)) il)) \<longrightarrow>
                 (\<exists>info'. ((n, True), Some info')
                             \<in> set (batch_items e (batches (nat (batch_size sb)) il))
                    \<and> map_of (packages sb') n = Some info' \<and> is_cask info'))"
      by (rule batch_both_kinds[OF assms d nu pos run])
  qed
  show "distinct (map fst (packages sa)) \<longrightarrow>
          optimized_analyze_packages e sa = Inr (sa', ca') \<longrightarrow>
          use_api sa' \<longrightarrow> api_cache sa' = Some (fo, ca) \<longrightarrow>
            ca' = c0 \<and> distinct (map fst (packages sa'))
            \<and> (\<forall>info. parse_api_data n True fo ca = Inr (Some info) \<longrightarrow>
                 map_of (packages sa') n = Some info \<and> is_cask info)"
  proof (intro impI)
    assume d: "distinct (map fst (packages sa))"
      and run: "optimized_analyze_packages e sa = Inr (sa', ca')"
      and u: "use_api sa'" and cache: "api_cache sa' = Some (fo, ca)"
    show "ca' = c0 \<and> distinct (map fst (packages sa'))
            \<and> (\<forall>info. parse_api_data n True fo ca = Inr (Some info) \<longrightarrow>
                 map_of (packages sa') n = Some info \<and> is_cask info)"
      by (rule api_both_kinds[OF assms(1) assms(3) d run u cache])
  qed
qed

theorem same_name_both_kinds_keep_one_record_witness:
  "get_installed_packages twin_env = Inr ([(''x'', False), (''x'', True)], [[''list'', ''--formula''], [''list'', ''--cask'']])
   \<and> (''x'', False) \<in> set [(''x'', False), (''x'', True)]
   \<and> (''x'', True) \<in> set [(''x'', False), (''x'', True)]
   \<and> distinct (map fst (packages new_analyzer))
   \<and> analyze_packages twin_env new_analyzer
       = Inr (\<lparr>packages = [(''x'', \<lparr>name = ''x'', description = JStr ''the cask'', url = JStr [],
         build_dependencies = [], runtime_dependencies = [], is_cask = True\<rparr>)], reverse_dependencies = [], installed_packages = {''x''}\<rparr>,
              [[''list'', ''--formula''], [''list'', ''--cask''], [''info'', ''--json'', ''x''], [''info'', ''--json'', ''--cask'', ''x'']])
   \<and> parse_brew_info twin_env ''x'' True
       = Inr (Some \<lparr>name = ''x'', description = JStr ''the cask'', url = JStr [],
         build_dependencies = [], runtime_dependencies = [], is_cask = True\<rparr>, [[''info'', ''--json'', ''--cask'', ''x'']])
   \<and> map_of (packages (\<lparr>packages = [(''x'', \<lparr>name = ''x'', description = JStr ''the cask'', url = JStr [],
         build_dependencies = [], runtime_dependencies = [], is_cask = True\<rparr>)], reverse_dependencies = [], installed_packages = {''x''}\<rparr>)) ''x''
       = Some \<lparr>name = ''x'', description = JStr ''the cask'', url = JStr [],
         build_dependencies = [], runtime_dependencies = [], is_cask = True\<rparr>
   \<and> distinct (map fst (packages (new_optimized False 50)))
   \<and> \<not> use_api (new_optimized False 50)
   \<and> 0 < batch_size (new_optimized False 50)
   \<and> optimized_analyze_packages twin_env (new_optimized False 50)
       = Inr (\<lparr>packages = [(''x'', \<lparr>name = ''x'', description = JStr ''the cask'', url = JStr [],
         build_dependencies = [], runtime_dependencies = [], is_cask = True\<rparr>)], reverse_dependencies = [], installed_packages = {''x''}, use_api = False, batch_size = 50, api_cache = None\<rparr>,
              [[''list'', ''--formula''], [''list'', ''--cask''], [''info'', ''--json'', ''x''], [''info'', ''--json'', ''--cask'', ''x'']])
   \<and> ((''x'', True), Some \<lparr>name = ''x'', description = JStr ''the cask'', url = JStr [],
         build_dependencies = [], runtime_dependencies = [], is_cask = True\<rparr>)
       \<in> set (batch_items twin_env (batches (nat (batch_size (new_optimized False 50))) [(''x'', False), (''x'', True)]))
   \<and> (\<exists>info'. map_of (packages (\<lparr>packages = [(''x'', \<lparr>name = ''x'', description = JStr ''the cask'', url = JStr [],
         build_dependencies = [], runtime_dependencies = [], is_cask = True\<rparr>)], reverse_dependencies = [], installed_packages = {''x''}, use_api = False, batch_size = 50, api_cache = None\<rparr>)) ''x'' = Some info' \<and> is_cask info')
   \<and> get_installed_packages twin_api_env = Inr ([(''x'', False), (''x'', True)], [[''list'', ''--formula''], [''list'', ''--cask'']])
   \<and> distinct (map fst (packages (new_optimized True 50)))
   \<and> optimized_analyze_packages twin_api_env (new_optimized True 50)
       = Inr (\<lparr>packages = [(''x'', \<lparr>name = ''x'', description = JStr ''the cask'', url = JStr [],
         build_dependencies = [], runtime_dependencies = [], is_cask = True\<rparr>)], reverse_dependencies = [], installed_packages = {''x''}, use_api = True, batch_size = 50, api_cache = Some ([(JStr ''x'', JObj [(''name'', JStr ''x''), (''desc'', JStr ''the formula'')])], [(JStr ''x'', JObj [(''token'', JStr ''x''), (''desc'', JStr ''the cask'')])])\<rparr>,
              [[''list'', ''--formula''], [''list'', ''--cask'']])
   \<and> use_api (\<lparr>packages = [(''x'', \<lparr>name = ''x'', description = JStr ''the cask'', url = JStr [],
         build_dependencies = [], runtime_dependencies = [], is_cask = True\<rparr>)], reverse_dependencies = [], installed_packages = {''x''}, use_api = True, batch_size = 50, api_cache = Some ([(JStr ''x'', JObj [(''name'', JStr ''x''), (''desc'', JStr ''the formula'')])], [(JStr ''x'', JObj [(''token'', JStr ''x''), (''desc'', JStr ''the cask'')])])\<rparr>)
   \<and> api_cache (\<lparr>packages = [(''x'', \<lparr>name = ''x'', description = JStr ''the cask'', url = JStr [],
         build_dependencies = [], runtime_dependencies = [], is_cask = True\<rparr>)], reverse_dependencies = [], installed_packages = {''x''}, use_api = True, batch_size = 50, api_cache = Some ([(JStr ''x'', JObj [(''name'', JStr ''x''), (''desc'', JStr ''the formula'')])], [(JStr ''x'', JObj [(''token'', JStr ''x''), (''desc'', JStr ''the cask'')])])\<rparr>)
       = Some ([(JStr ''x'', JObj [(''name'', JStr ''x''), (''desc'', JStr ''the formula'')])],
               [(JStr ''x'', JObj [(''token'', JStr ''x''), (''desc'', JStr ''the cask'')])])
   \<and> parse_api_data ''x'' True [(JStr ''x'', JObj [(''name'', JStr ''x''), (''desc'', JStr ''the formula'')])]
         [(JStr ''x'', JObj [(''token'', JStr ''x''), (''desc'', JStr ''the cask'')])] = Inr (Some \<lparr>name = ''x'', description = JStr ''the cask'', url = JStr [],
         build_dependencies = [], runtime_dependencies = [], is_cask = True\<rparr>)
   \<and> map_of (packages (\<lparr>packages = [(''x'', \<lparr>name = ''x'', description = JStr ''the cask'', url = JStr [],
         build_dependencies = [], runtime_dependencies = [], is_cask = True\<rparr>)], reverse_dependencies = [], installed_packages = {''x''}, use_api = True, batch_size = 50, api_cache = Some ([(JStr ''x'', JObj [(''name'', JStr ''x''), (''desc'', JStr ''the formula'')])], [(JStr ''x'', JObj [(''token'', JStr ''x''), (''desc'', JStr ''the cask'')])])\<rparr>)) ''x''
       = Some \<lparr>name = ''x'', description = JStr ''the cask'', url = JStr [],
         build_dependencies = [], runtime_dependencies = [], is_cask = True\<rparr>"
proof -
  let ?k = "\<lparr>name = ''x'', description = JStr ''the cask'', url = JStr [],
         build_dependencies = [], runtime_dependencies = [], is_cask = True\<rparr>"
  let ?il = "[(''x'', False), (''x'', True)]"
  let ?c0 = "[[''list'', ''--formula''], [''list'', ''--cask'']]"
  let ?c1 = "[[''list'', ''--formula''], [''list'', ''--cask''], [''info'', ''--json'', ''x''], [''info'', ''--json'', ''--cask'', ''x'']]"
  let ?fo = "[(JStr ''x'', JObj [(''name'', JStr ''x''), (''desc'', JStr ''the formula'')])]"
  let ?ca = "[(JStr ''x'', JObj [(''token'', JStr ''x''), (''desc'', JStr ''the cask'')])]"
  let ?S1 = "\<lparr>packages = [(''x'', ?k)], reverse_dependencies = [],
              installed_packages = {''x''}\<rparr>"
  let ?S2 = "\<lparr>packages = [(''x'', ?k)], reverse_dependencies = [],
              installed_packages = {''x''}, use_api = False, batch_size = 50,
              api_cache = None\<rparr>"
  let ?S3 = "\<lparr>packages = [(''x'', ?k)], reverse_dependencies = [],
              installed_packages = {''x''}, use_api = True, batch_size = 50,
              api_cache = Some (?fo, ?ca)\<rparr>"
  have h2: "(''x'', False) \<in> set ?il" by simp
  have h3: "(''x'', True) \<in> set ?il" by simp
  have d1: "distinct (map fst (packages new_analyzer))" by (simp add: new_analyzer_def)
  have d2: "distinct (map fst (packages (new_optimized False 50)))"
    by (simp add: new_optimized_def)
  have nu: "\<not> use_api (new_optimized False 50)" by (simp add: new_optimized_def)
  have pos: "0 < batch_size (new_optimized False 50)" by (simp add: new_optimized_def)
  have m: "((''x'', True), Some ?k)
       \<in> set (batch_items twin_env (batches (nat (batch_size (new_optimized False 50))) ?il))"
    by (simp add: new_optimized_def twin_batches batch_items_def twin_batch_results)
  have d3: "distinct (map fst (packages (new_optimized True 50)))"
    by (simp add: new_optimized_def)
  have u: "use_api ?S3" by simp
  have cache: "api_cache ?S3 = Some (?fo, ?ca)" by simp
  note t = same_name_both_kinds_keep_one_record[OF twin_installed h2 h3,
      where st = new_analyzer and st' = ?S1 and c = ?c1
        and sb = "new_optimized False 50" and sb' = ?S2 and cb = ?c1]
  note ts = t[THEN conjunct1, rule_format, OF d1 twin_single_run]
  have w1: "map_of (packages ?S1) ''x'' = Some ?k"
    using ts[THEN conjunct2, THEN conjunct2, THEN conjunct2, THEN conjunct2, rule_format,
        OF twin_cask_query]
    by (rule conjunct1)
  note tb = t[THEN conjunct2, THEN conjunct1, rule_format, OF d2 nu pos twin_batch_run]
  have w2: "\<exists>info'. map_of (packages ?S2) ''x'' = Some info' \<and> is_cask info'"
    using tb[THEN conjunct2, THEN conjunct2, THEN conjunct2, rule_format, OF m] by blast
  note t' = same_name_both_kinds_keep_one_record[OF twin_api_installed h2 h3,
      where sa = "new_optimized True 50" and sa' = ?S3 and ca' = ?c0
        and fo = ?fo and ca = ?ca]
  note ta = t'[THEN conjunct2, THEN conjunct2, rule_format, OF d3 twin_api_run u cache]
  have w3: "map_of (packages ?S3) ''x'' = Some ?k"
    using ta[THEN conjunct2, THEN conjunct2, rule_format, OF twin_api_cask]
    by (rule conjunct1)
  show ?thesis
    by (intro conjI)
      (rule twin_installed, rule h2, rule h3, rule d1, rule twin_single_run,
       rule twin_cask_query, rule w1, rule d2, rule nu, rule pos, rule twin_batch_run,
       rule m, rule w2, rule twin_api_installed, rule d3, rule twin_api_run, rule u,
       rule cache, rule twin_api_cask, rule w3)
qed

section \<open>The responses of the other batches\<close>









end
